theory Spec2Isabelle
  imports Main
begin

section \<open>Python errors\<close>

datatype error = ValueError | TypeError | RuntimeError | KeyError | IndexError | RayTaskError

section \<open>core/extra/ray.py: joining Ray futures\<close>

subsection \<open>The caller's objects and the substrate\<close>

text \<open>
  A future (\<open>ray.ObjectRef\<close>) is an opaque handle of type \<open>'h\<close>. The substrate hands back
  the very objects it was given, so \<open>id(future)\<close> is the handle itself.

  The argument of the joiner is an object of the caller's heap, known by its address: the
  joiner empties that object in place, and the caller sees it. The argument may be a
  list, or something that is not a list: a tuple, or an iterator without a length.
\<close>

type_synonym addr = nat

datatype 'h pyarg = PyList "'h list" | PyTuple "'h list" | PyIterator "'h list"

text \<open>
  \<open>polls\<close> counts the calls of \<open>ray.wait\<close> made so far. The substrate is given by two
  parameters: \<open>ready k h\<close> says that the \<open>k\<close>-th call of \<open>ray.wait\<close> reports \<open>h\<close> as
  completed if \<open>h\<close> is among the futures it is asked about (any completion order, and any
  delay, is a choice of \<open>ready\<close>), and \<open>result_of h\<close> is what \<open>ray.get\<close> has for \<open>h\<close>: the
  value of the task, or the exception \<open>ray.get\<close> raises for it when the task failed or its
  worker died. The calls modelled are those with the default \<open>update_interval\<close> (the
  timeout of each wait, which decides only how much a wait reports, and that is \<open>ready\<close>)
  and with arguments the progress bar accepts (\<open>tqdm_kwargs\<close>, its look).
\<close>

record 'h world =
  heap :: "addr \<Rightarrow> 'h pyarg"
  polls :: nat

text \<open>
  \<open>len(futures)\<close>: lists and tuples have a length, an iterator has none.
\<close>

fun len :: "'h pyarg \<Rightarrow> error + nat" where
  "len (PyList xs) = Inr (length xs)"
| "len (PyTuple xs) = Inr (length xs)"
| "len (PyIterator xs) = Inl TypeError"

text \<open>
  \<open>ray.wait(futures, num_returns=len(futures), timeout=...)\<close>: the bounded wait of the
  substrate, over the set of outstanding futures. Ray refuses a list that holds the same
  reference twice (ValueError, "Wait requires a list of unique object refs"); otherwise
  it splits the list, in order, into the futures completed by now and the remaining ones.
\<close>

definition ray_wait ::
  "(nat \<Rightarrow> 'h \<Rightarrow> bool) \<Rightarrow> 'h world \<Rightarrow> 'h list \<Rightarrow> (error + 'h list \<times> 'h list) \<times> 'h world" where
  "ray_wait ready w fs =
     (if distinct fs then Inr (partition (ready (polls w)) fs) else Inl ValueError,
      w\<lparr>polls := Suc (polls w)\<rparr>)"

text \<open>
  \<open>ray.get(done)\<close>: the values of the completed futures, in the order of \<open>done\<close>, or the
  exception of the first of them that has one.
\<close>

fun ray_get :: "('h \<Rightarrow> error + 'v) \<Rightarrow> 'h list \<Rightarrow> error + 'v list" where
  "ray_get result_of [] = Inr []"
| "ray_get result_of (h # hs) =
     (case result_of h of
        Inl e \<Rightarrow> Inl e
      | Inr v \<Rightarrow> (case ray_get result_of hs of Inl e \<Rightarrow> Inl e | Inr vs \<Rightarrow> Inr (v # vs)))"

text \<open>
  Modelled from the spec: \<open>_make_copy_and_empty_given\<close> of \<open>utils/parallelize.py\<close> is not
  among the sources. By its name, by the docstrings of its two callers (the list "will be
  reduced into an empty list as a side effect of this function") and by the spec (the
  joiner "consumes the input list as a side effect"), it returns a copy of the given list
  and leaves the given list object empty. \<open>a\<close> is the address of the given list, \<open>items\<close>
  its content.
\<close>

definition make_copy_and_empty_given :: "'h world \<Rightarrow> addr \<Rightarrow> 'h list \<Rightarrow> 'h list \<times> 'h world" where
  "make_copy_and_empty_given w a items = (items, w\<lparr>heap := (heap w)(a := PyList [])\<rparr>)"

subsection \<open>The generator \<open>join_ray_futures_iter\<close>\<close>

text \<open>
  \<open>{id(future): index for index, future in enumerate(futures)}\<close>: a later entry with the
  same key replaces an earlier one.
\<close>

definition id_to_position :: "'h list \<Rightarrow> ('h \<rightharpoonup> nat)" where
  "id_to_position fs = fold (\<lambda>(index, future) m. m(future \<mapsto> index)) (enumerate 0 fs) Map.empty"

text \<open>
  The local variables of the running generator body: the tracked futures, the identity
  map, what \<open>zip(done, ray.get(done))\<close> has still to deliver in the current poll cycle, and
  the count of the progress bar.
\<close>

record ('h, 'v) frame =
  futures :: "'h list"
  id_to_position_map :: "'h \<rightharpoonup> nat"
  pending :: "('h \<times> 'v) list"
  pbar :: nat

text \<open>
  A generator object: created and not yet started (its body has not run, it only holds the
  reference to its argument), suspended in its body, or finished.
\<close>

datatype ('h, 'v) generator = Created addr | Suspended "('h, 'v) frame" | Finished

text \<open>What \<open>next\<close> on a generator gives its caller.\<close>

datatype 'v signal = Yield nat 'v | StopIteration | Raise error

text \<open>
  One stretch of the body of \<open>join_ray_futures_iter\<close>: from the start of the body to the
  \<open>while\<close> loop (lines 115-119), or one item of the \<open>for\<close> loop (lines 124-126), or one turn
  of the \<open>while\<close> loop up to the start of its \<open>for\<close> loop (lines 122-124, with the
  \<open>ray.get\<close> of line 124, whose exception leaves the generator). The first
  component is the signal for the caller of \<open>next\<close>, or \<open>None\<close> when the body goes on
  running.
\<close>

fun gen_step ::
  "(nat \<Rightarrow> 'h \<Rightarrow> bool) \<Rightarrow> ('h \<Rightarrow> error + 'v) \<Rightarrow> 'h world \<Rightarrow> ('h, 'v) generator
     \<Rightarrow> 'v signal option \<times> 'h world \<times> ('h, 'v) generator" where
  "gen_step ready result_of w (Created a) =
     (case heap w a of
        PyList items \<Rightarrow>
          (let (fs, w') = make_copy_and_empty_given w a items
           in (None, w', Suspended \<lparr>futures = fs, id_to_position_map = id_to_position fs,
                                    pending = [], pbar = 0\<rparr>))
      | _ \<Rightarrow> (Some (Raise ValueError), w, Finished))"
| "gen_step ready result_of w (Suspended fr) =
     (case pending fr of
        (future, result) # rest \<Rightarrow>
          (case id_to_position_map fr future of
             None \<Rightarrow> (Some (Raise KeyError), w, Finished)
           | Some position \<Rightarrow>
               (Some (Yield position result), w,
                Suspended (fr\<lparr>pending := rest, pbar := pbar fr + 1\<rparr>)))
      | [] \<Rightarrow>
          (if futures fr = [] then (Some StopIteration, w, Finished)
           else (case ray_wait ready w (futures fr) of
                   (Inl e, w') \<Rightarrow> (Some (Raise e), w', Finished)
                 | (Inr (done, remaining), w') \<Rightarrow>
                     (case ray_get result_of done of
                        Inl e \<Rightarrow> (Some (Raise e), w', Finished)
                      | Inr results \<Rightarrow>
                          (None, w',
                           Suspended (fr\<lparr>futures := remaining,
                                          pending := zip done results\<rparr>))))))"
| "gen_step ready result_of w Finished = (Some StopIteration, w, Finished)"

text \<open>
  \<open>next(generator)\<close>: the body runs until it yields, returns or raises. While no wait
  reports a completed future it keeps polling, possibly for ever: not returning is \<open>None\<close>.
\<close>

partial_function (option) gen_next ::
  "(nat \<Rightarrow> 'h \<Rightarrow> bool) \<Rightarrow> ('h \<Rightarrow> error + 'v) \<Rightarrow> 'h world \<Rightarrow> ('h, 'v) generator
     \<Rightarrow> ('v signal \<times> 'h world \<times> ('h, 'v) generator) option" where
  "gen_next ready result_of w g =
     (case gen_step ready result_of w g of
        (None, w', g') \<Rightarrow> gen_next ready result_of w' g'
      | (Some sig, w', g') \<Rightarrow> Some (sig, w', g'))"

text \<open>
  \<open>for item in generator: body\<close>, with the loop's variables in \<open>s\<close>. The result is the
  final \<open>s\<close> or the exception that left the loop, and the final world.
\<close>

partial_function (option) for_each ::
  "(nat \<times> 'v \<Rightarrow> 's \<Rightarrow> error + 's) \<Rightarrow> (nat \<Rightarrow> 'h \<Rightarrow> bool) \<Rightarrow> ('h \<Rightarrow> error + 'v) \<Rightarrow> 'h world
     \<Rightarrow> ('h, 'v) generator \<Rightarrow> 's \<Rightarrow> ((error + 's) \<times> 'h world) option" where
  "for_each body ready result_of w g s =
     (case gen_next ready result_of w g of
        None \<Rightarrow> None
      | Some (Yield position result, w', g') \<Rightarrow>
          (case body (position, result) s of
             Inl e \<Rightarrow> Some (Inl e, w')
           | Inr s' \<Rightarrow> for_each body ready result_of w' g' s')
      | Some (StopIteration, w', g') \<Rightarrow> Some (Inr s, w')
      | Some (Raise e, w', g') \<Rightarrow> Some (Inl e, w'))"

declare gen_next.simps [code]

declare for_each.simps [code]

text \<open>
  Calling \<open>join_ray_futures_iter(futures)\<close> only creates the generator: nothing of the
  body runs before the first \<open>next\<close>.
\<close>

definition join_ray_futures_iter :: "addr \<Rightarrow> ('h, 'v) generator" where
  "join_ray_futures_iter a = Created a"

text \<open>The pairs a generator emits when it is run to its end, \<open>list(generator)\<close>.\<close>

definition emitted ::
  "(nat \<Rightarrow> 'h \<Rightarrow> bool) \<Rightarrow> ('h \<Rightarrow> error + 'v) \<Rightarrow> 'h world \<Rightarrow> ('h, 'v) generator
     \<Rightarrow> ((error + (nat \<times> 'v) list) \<times> 'h world) option" where
  "emitted ready result_of w g = for_each (\<lambda>item acc. Inr (acc @ [item])) ready result_of w g []"

subsection \<open>The eager \<open>join_ray_futures\<close>\<close>

text \<open>\<open>results[position] = result\<close>, an IndexError out of range.\<close>

definition store_result :: "nat \<times> 'v \<Rightarrow> 'v option list \<Rightarrow> error + 'v option list" where
  "store_result item results =
     (if fst item < length results then Inr (results[fst item := Some (snd item)])
      else Inl IndexError)"

text \<open>
  \<open>results = [None] * len(futures)\<close>, then the \<open>for\<close> loop over the generator, then the
  list. The length is taken before the generator is made, so an argument without a length
  raises TypeError at once.
\<close>

definition join_ray_futures ::
  "(nat \<Rightarrow> 'h \<Rightarrow> bool) \<Rightarrow> ('h \<Rightarrow> error + 'v) \<Rightarrow> 'h world \<Rightarrow> addr
     \<Rightarrow> ((error + 'v option list) \<times> 'h world) option" where
  "join_ray_futures ready result_of w a =
     (case len (heap w a) of
        Inl e \<Rightarrow> Some (Inl e, w)
      | Inr n \<Rightarrow> for_each store_result ready result_of w (join_ray_futures_iter a)
                  (replicate n None))"

subsection \<open>\<open>RayExecutor.run\<close>\<close>

text \<open>
  What \<open>run\<close> asks of Ray and of its superclass, in the order of the calls. The state of
  Ray that \<open>run\<close> reads is whether a cluster is initialized (\<open>ray.is_initialized()\<close>) and
  the dictionary \<open>ray.available_resources()\<close>, from resource names to amounts \<open>'n\<close>;
  \<open>dispatched\<close> is whatever state the dispatch of the runs changes.
\<close>

datatype 'n call = Call_is_initialized | Call_available_resources | Call_super_run "'n option" bool

record ('n, 'd) ray_state =
  is_initialized :: bool
  available_resources :: "string \<rightharpoonup> 'n"
  calls :: "'n call list"
  dispatched :: 'd

text \<open>
  \<open>EOExecutor.run(workers, multiprocess)\<close>, the method of the superclass that dispatches
  the runs, is not among the sources: it is the parameter \<open>super_run\<close>, any function from
  the two arguments and the state of the dispatch to the results and the new state.
\<close>

definition RayExecutor_run ::
  "('n option \<Rightarrow> bool \<Rightarrow> 'd \<Rightarrow> 'r \<times> 'd) \<Rightarrow> ('n, 'd) ray_state
     \<Rightarrow> (error + 'r) \<times> ('n, 'd) ray_state" where
  "RayExecutor_run super_run s =
     (let s1 = s\<lparr>calls := calls s @ [Call_is_initialized]\<rparr>
      in if \<not> is_initialized s1 then (Inl RuntimeError, s1)
         else
           (let s2 = s1\<lparr>calls := calls s1 @ [Call_available_resources]\<rparr>;
                workers = available_resources s2 ''CPU'';
                s3 = s2\<lparr>calls := calls s2 @ [Call_super_run workers True]\<rparr>;
                (results, d) = super_run workers True (dispatched s3)
            in (Inr results, s3\<lparr>dispatched := d\<rparr>)))"

section \<open>core/utilities/other.py: \<open>generate_uid\<close>\<close>

text \<open>
  The two identifiers drawn by \<open>generate_uid\<close>, as the hexadecimal strings
  \<open>uuid.uuid1(node=0).hex\<close> and \<open>uuid.uuid4().hex\<close>: they come from the clock and from the
  random source, so they are parameters here.
\<close>

record uuids =
  uuid1_hex :: string
  uuid4_hex :: string

text \<open>\<open>hex[:-12]\<close> drops the last twelve characters, \<open>hex[:12]\<close> keeps the first twelve.\<close>

definition generate_uid :: "uuids \<Rightarrow> string \<Rightarrow> string" where
  "generate_uid u prefix =
     (let time_uid = take (length (uuid1_hex u) - 12) (uuid1_hex u);
          random_uid = take 12 (uuid4_hex u)
      in prefix @ ''-'' @ time_uid @ ''-'' @ random_uid)"

section \<open>core/eoworkflow\_tasks.py\<close>

subsection \<open>Python values\<close>

text \<open>
  The values the two tasks handle. Immutable values are given in full; a list, a
  dictionary, a set, an \<open>EOPatch\<close> or any other instance is an object of the store, known
  by its reference, so that "the same object" can be told from "a copy". A feature of an
  \<open>EOPatch\<close> is named by its type and its name.

  A float is \<open>m * 2 ^ e\<close>, an infinity or a NaN; only whether it is zero matters here.

  Of an instance of any other class the store keeps what its truth test gives, which is
  all these tasks ask of it: \<open>None\<close> when the class defines neither \<open>__bool__\<close> nor
  \<open>__len__\<close>, else the truth value that method gives or the exception it raises (a numpy
  array of several elements raises ValueError).
\<close>

type_synonym ref = nat

type_synonym feature = "string \<times> string"

datatype pyfloat = Float int int | Infinity bool | NaN

datatype pyval =
    NoneV | BoolV bool | IntV int | FloatV pyfloat | StrV string | BytesV string
  | TupleV "pyval list" | FrozensetV "pyval list" | RefV ref

datatype pyobj =
    ListObj "pyval list"
  | DictObj "(pyval \<times> pyval) list"
  | SetObj "pyval list"
  | EOPatchObj "(feature \<times> pyval) list"
  | InstanceObj "(error + bool) option"

type_synonym store = "pyobj list"

definition lookup :: "store \<Rightarrow> ref \<Rightarrow> pyobj option" where
  "lookup st r = (if r < length st then Some (st ! r) else None)"

text \<open>
  \<open>bool(x)\<close>, the truth test of \<open>a or b\<close>: \<open>None\<close>, \<open>False\<close>, the zeros, and the empty
  string, bytes, tuple, frozenset, list, dictionary and set are false; an instance is
  what its class makes it, true when the class says nothing. What the class \<open>EOPatch\<close>
  (\<open>eodata.py\<close>, not among the sources) makes of a patch is the parameter \<open>patch_truth\<close>.
  Every Python value denotes an object; a reference that denotes none is given no truth
  value (the error \<open>NoObject\<close>, which is not Python's), so that nothing is said of it.
\<close>

datatype outcome = NoObject | Raises error | Truth bool

fun py_bool :: "outcome \<Rightarrow> store \<Rightarrow> pyval \<Rightarrow> outcome" where
  "py_bool patch_truth st NoneV = Truth False"
| "py_bool patch_truth st (BoolV b) = Truth b"
| "py_bool patch_truth st (IntV i) = Truth (i \<noteq> 0)"
| "py_bool patch_truth st (FloatV x) = Truth (case x of Float m e \<Rightarrow> m \<noteq> 0 | _ \<Rightarrow> True)"
| "py_bool patch_truth st (StrV s) = Truth (s \<noteq> [])"
| "py_bool patch_truth st (BytesV s) = Truth (s \<noteq> [])"
| "py_bool patch_truth st (TupleV xs) = Truth (xs \<noteq> [])"
| "py_bool patch_truth st (FrozensetV xs) = Truth (xs \<noteq> [])"
| "py_bool patch_truth st (RefV r) =
     (case lookup st r of
        None \<Rightarrow> NoObject
      | Some (ListObj xs) \<Rightarrow> Truth (xs \<noteq> [])
      | Some (DictObj kvs) \<Rightarrow> Truth (kvs \<noteq> [])
      | Some (SetObj xs) \<Rightarrow> Truth (xs \<noteq> [])
      | Some (EOPatchObj content) \<Rightarrow> patch_truth
      | Some (InstanceObj None) \<Rightarrow> Truth True
      | Some (InstanceObj (Some (Inl e))) \<Rightarrow> Raises e
      | Some (InstanceObj (Some (Inr b))) \<Rightarrow> Truth b)"

text \<open>
  \<open>a or b\<close>: \<open>a\<close> if it is true, \<open>b\<close> if \<open>a\<close> is false, and the exception of the truth test
  of \<open>a\<close> if it raises. The result is \<open>None\<close> only for a reference that denotes no object.
\<close>

definition py_or :: "outcome \<Rightarrow> store \<Rightarrow> pyval \<Rightarrow> pyval \<Rightarrow> (error + pyval) option" where
  "py_or patch_truth st a b =
     (case py_bool patch_truth st a of
        Truth t \<Rightarrow> Some (Inr (if t then a else b))
      | Raises e \<Rightarrow> Some (Inl e)
      | NoObject \<Rightarrow> None)"

subsection \<open>\<open>InputTask\<close>\<close>

record InputTask =
  value_attr :: pyval

definition InputTask_init :: "pyval \<Rightarrow> InputTask" where
  "InputTask_init v = \<lparr>value_attr = v\<rparr>"

text \<open>
  \<open>execute(self, *, value=None)\<close>: the keyword argument is \<open>None\<close> when the caller does
  not pass it; \<open>return value or self.value\<close>.
\<close>

definition InputTask_execute ::
  "outcome \<Rightarrow> store \<Rightarrow> InputTask \<Rightarrow> pyval option \<Rightarrow> (error + pyval) option" where
  "InputTask_execute patch_truth st self kw =
     (let v = (case kw of None \<Rightarrow> NoneV | Some given \<Rightarrow> given)
      in py_or patch_truth st v (value_attr self))"

subsection \<open>\<open>OutputTask\<close>\<close>

text \<open>The \<open>features\<close> of an \<open>OutputTask\<close>: \<open>...\<close> (all of them, the default) or a collection.\<close>

datatype feature_spec = AllFeatures | Features "feature list"

record OutputTask =
  name_attr :: string
  features :: feature_spec

text \<open>
  \<open>__init__(self, name=None, features=...)\<close>, with \<open>name\<close> of type \<open>Optional[str]\<close>:
  \<open>self._name = name or generate_uid('output')\<close>.
\<close>

definition OutputTask_init :: "uuids \<Rightarrow> string option \<Rightarrow> feature_spec \<Rightarrow> OutputTask" where
  "OutputTask_init u name fs =
     \<lparr>name_attr =
        (case name of
           None \<Rightarrow> generate_uid u ''output''
         | Some n \<Rightarrow> if n \<noteq> [] then n else generate_uid u ''output''),
      features = fs\<rparr>"

text \<open>The property \<open>name\<close>: reading it gives the string and leaves the task as it is.\<close>

definition name :: "OutputTask \<Rightarrow> string \<times> OutputTask" where
  "name self = (name_attr self, self)"

definition kept :: "feature_spec \<Rightarrow> feature \<Rightarrow> bool" where
  "kept spec f = (case spec of AllFeatures \<Rightarrow> True | Features fs \<Rightarrow> f \<in> set fs)"

text \<open>
  Modelled from the spec: \<open>EOPatch.copy(features=...)\<close> of \<open>eodata.py\<close> is not among the
  sources. By the docstring of its caller ("for \<open>EOPatch\<close> returns shallow copy containing
  only \<open>features\<close>") and the spec (the output node "copies/filters its received value"),
  it makes a new \<open>EOPatch\<close> object that holds the features of the given one that are in
  \<open>features\<close>, each with the same value as in the given one (nothing below the patch is
  copied), and leaves the given object as it is.
\<close>

definition EOPatch_copy :: "store \<Rightarrow> (feature \<times> pyval) list \<Rightarrow> feature_spec \<Rightarrow> pyval \<times> store" where
  "EOPatch_copy st content spec =
     (RefV (length st), st @ [EOPatchObj (filter (\<lambda>item. kept spec (fst item)) content)])"

definition OutputTask_execute :: "store \<Rightarrow> OutputTask \<Rightarrow> pyval \<Rightarrow> pyval \<times> store" where
  "OutputTask_execute st self data =
     (case data of
        RefV r \<Rightarrow>
          (case lookup st r of
             Some (EOPatchObj content) \<Rightarrow> EOPatch_copy st content (features self)
           | _ \<Rightarrow> (data, st))
      | _ \<Rightarrow> (data, st))"

section \<open>Notions used in the proofs and in the refinement\<close>

text \<open>
  The body of a \<open>for\<close> loop run over a list of items, one after the other, stopping at the
  first exception: what \<open>for_each\<close> does once the items the generator emits are known.
\<close>

fun run_body :: "('a \<Rightarrow> 's \<Rightarrow> error + 's) \<Rightarrow> 'a list \<Rightarrow> 's \<Rightarrow> error + 's" where
  "run_body body [] s = Inr s"
| "run_body body (x # xs) s = (case body x s of Inl e \<Rightarrow> Inl e | Inr s' \<Rightarrow> run_body body xs s')"

text \<open>
  The same, with the exception (if any) that ends the generator after the items: the
  outcome of the loop is the body's first exception, else the generator's, else the final
  variables.
\<close>

definition run_all ::
  "('a \<Rightarrow> 's \<Rightarrow> error + 's) \<Rightarrow> 'a list \<Rightarrow> error option \<Rightarrow> 's \<Rightarrow> error + 's" where
  "run_all body items err s =
     (case run_body body items s of
        Inl e \<Rightarrow> Inl e
      | Inr s' \<Rightarrow> (case err of None \<Rightarrow> Inr s' | Some e \<Rightarrow> Inl e))"

text \<open>
  The run of the polling loop over the futures \<open>fs\<close> it tracks, from the \<open>k\<close>-th wait on
  and for at most \<open>n\<close> waits: the futures in the order in which their pairs are emitted
  (those the \<open>k\<close>-th wait reports, in the order of \<open>fs\<close>, then those of the later waits),
  and the exception of \<open>ray.get\<close> that ends the run, if one does.
\<close>

fun poll_run ::
  "(nat \<Rightarrow> 'h \<Rightarrow> bool) \<Rightarrow> ('h \<Rightarrow> error + 'v) \<Rightarrow> nat \<Rightarrow> nat \<Rightarrow> 'h list \<Rightarrow> 'h list \<times> error option" where
  "poll_run ready result_of 0 k fs = ([], None)"
| "poll_run ready result_of (Suc n) k fs =
     (if fs = [] then ([], None)
      else (case ray_get result_of (filter (ready k) fs) of
              Inl e \<Rightarrow> ([], Some e)
            | Inr vs \<Rightarrow>
                (let (hs, err) = poll_run ready result_of n (Suc k) (filter (\<lambda>f. \<not> ready k f) fs)
                 in (filter (ready k) fs @ hs, err))))"

text \<open>The pair the generator yields for an item of \<open>zip(done, ray.get(done))\<close>.\<close>

definition emit :: "('h \<rightharpoonup> nat) \<Rightarrow> 'h \<times> 'v \<Rightarrow> nat \<times> 'v" where
  "emit m item = (the (m (fst item)), snd item)"

text \<open>
  The eager mode as the spec words it, from the pairs of the lazy mode ("taking every
  (position, value) pair emitted and placing each value at its position"): a list of \<open>n\<close>
  entries in which each emitted value stands at its position, and \<open>None\<close> stands where no
  pair names the position. This definition follows the spec, not the source; the source's
  \<open>join_ray_futures\<close> above assigns \<open>results[position] = result\<close> pair by pair.
\<close>

definition place_at_positions :: "nat \<Rightarrow> (nat \<times> 'v) list \<Rightarrow> 'v option list" where
  "place_at_positions n pairs = map (map_of pairs) [0..<n]"

section \<open>Concrete inputs\<close>

text \<open>
  Scenario 4 of the spec: five futures, of which future number 3 resolves last. The list
  is at address 0 of the caller's heap, a tuple at every other address. The first wait
  reports nothing, the second the futures 0, 1, 2 and 4, the fourth future 3. With
  \<open>doubled\<close> every task succeeds and the value of a future is twice its handle; with
  \<open>one_failed\<close> the task of future number 2 has failed.
\<close>

definition scenario4 :: "nat world" where
  "scenario4 = \<lparr>heap = (\<lambda>a. if a = 0 then PyList [10, 11, 12, 13, 14] else PyTuple [10, 11]), polls = 0\<rparr>"

definition future3_last :: "nat \<Rightarrow> nat \<Rightarrow> bool" where
  "future3_last k h = (if h = 13 then k = 3 else k = 1)"

definition twice :: "nat \<Rightarrow> nat" where
  "twice h = 2 * h"

definition doubled :: "nat \<Rightarrow> error + nat" where
  "doubled h = Inr (twice h)"

definition one_failed :: "nat \<Rightarrow> error + nat" where
  "one_failed h = (if h = 12 then Inl RayTaskError else doubled h)"

text \<open>A list that holds the same future twice, every future being complete at once.\<close>

definition always_ready :: "nat \<Rightarrow> nat \<Rightarrow> bool" where
  "always_ready k h = True"

definition repeated_future :: "nat world" where
  "repeated_future = \<lparr>heap = (\<lambda>a. PyList [7, 7]), polls = 0\<rparr>"

text \<open>A session without a cluster, one with 8 CPUs, and a dispatch that submits three runs.\<close>

definition no_cluster :: "(nat, nat list) ray_state" where
  "no_cluster = \<lparr>is_initialized = False, available_resources = Map.empty, calls = [], dispatched = []\<rparr>"

definition cluster_of_8 :: "(nat, nat list) ray_state" where
  "cluster_of_8 = \<lparr>is_initialized = True, available_resources = [''CPU'' \<mapsto> 8, ''memory'' \<mapsto> 1024],
                    calls = [], dispatched = []\<rparr>"

definition submit_three :: "nat option \<Rightarrow> bool \<Rightarrow> nat list \<Rightarrow> string \<times> nat list" where
  "submit_three workers multiprocess d = (''results'', d @ [1, 2, 3])"

text \<open>
  Two identifiers, a store with a list, a patch of two features and empty containers, and
  a store with empty containers, a list that is not empty, an instance of a class without
  a truth method, one whose truth method gives false, and one whose truth test raises.
\<close>

definition some_uuids :: uuids where
  "some_uuids = \<lparr>uuid1_hex = ''6fa459ea0ee311f0a1b2000000000000'',
                  uuid4_hex = ''16fd2706845e4b0c9bd2a8f1c3e0d7aa''\<rparr>"

definition patch_store :: store where
  "patch_store = [ListObj [IntV 1], EOPatchObj [((''data'', ''BANDS''), RefV 0), ((''mask'', ''CLM''), IntV 5)],
                  ListObj [], DictObj []]"

definition truth_store :: store where
  "truth_store = [ListObj [], DictObj [], SetObj [], ListObj [IntV 0],
                  InstanceObj None, InstanceObj (Some (Inr False)), InstanceObj (Some (Inl ValueError))]"

section \<open>Lemmas\<close>

subsection \<open>The identity map\<close>

lemma id_to_position_snoc:
  "id_to_position (fs @ [f]) = (id_to_position fs)(f \<mapsto> length fs)"
  by (simp add: id_to_position_def enumerate_append_eq)

lemma id_to_position_Some:
  "id_to_position fs f = Some i \<Longrightarrow> i < length fs \<and> fs ! i = f"
proof (induction fs arbitrary: i rule: rev_induct)
  case Nil
  then show ?case by (simp add: id_to_position_def)
next
  case (snoc x xs)
  then show ?case
    by (auto simp: id_to_position_snoc nth_append less_Suc_eq split: if_splits)
qed

lemma id_to_position_dom: "dom (id_to_position fs) = set fs"
proof (induction fs rule: rev_induct)
  case Nil
  then show ?case by (simp add: id_to_position_def)
next
  case (snoc x xs)
  then show ?case by (auto simp: id_to_position_snoc dom_def split: if_splits)
qed

lemma id_to_position_nth:
  "distinct fs \<Longrightarrow> i < length fs \<Longrightarrow> id_to_position fs (fs ! i) = Some i"
proof -
  assume d: "distinct fs" and i: "i < length fs"
  then have "fs ! i \<in> dom (id_to_position fs)"
    by (simp add: id_to_position_dom)
  then obtain j where j: "id_to_position fs (fs ! i) = Some j" by blast
  then have "j < length fs" "fs ! j = fs ! i"
    using id_to_position_Some by fastforce+
  with d i have "j = i" by (simp add: nth_eq_iff_index_eq)
  with j show ?thesis by simp
qed

lemma position_of:
  assumes "distinct fs" and "f \<in> set fs"
  shows "\<exists>i<length fs. fs ! i = f \<and> id_to_position fs f = Some i"
proof -
  from assms(2) obtain i where "i < length fs" "fs ! i = f" by (auto simp: in_set_conv_nth)
  with id_to_position_nth[OF assms(1), of i] show ?thesis by auto
qed

subsection \<open>Unfolding \<open>next\<close> and the \<open>for\<close> loop\<close>

lemma run_body_append:
  "run_body body (xs @ ys) s =
     (case run_body body xs s of Inl e \<Rightarrow> Inl e | Inr s' \<Rightarrow> run_body body ys s')"
  by (induction xs arbitrary: s) (auto split: sum.splits)

lemma run_all_append:
  "run_all body (xs @ ys) err s =
     (case run_body body xs s of Inl e \<Rightarrow> Inl e | Inr s' \<Rightarrow> run_all body ys err s')"
  by (simp add: run_all_def run_body_append split: sum.splits)

lemma run_body_collect:
  "run_body (\<lambda>item acc. Inr (acc @ [item])) xs acc = Inr (acc @ xs)"
  by (induction xs arbitrary: acc) simp_all

lemma ray_get_Inr:
  "ray_get result_of hs = Inr vs \<Longrightarrow> vs = map (\<lambda>h. projr (result_of h)) hs"
  by (induction hs arbitrary: vs) (auto split: sum.splits)

lemma ray_get_values:
  "\<forall>h\<in>set hs. result_of h = Inr (val h) \<Longrightarrow> ray_get result_of hs = Inr (map val hs)"
  by (induction hs) simp_all

lemma gen_next_signal:
  "gen_step ready result_of w g = (Some sig, w', g') \<Longrightarrow>
   gen_next ready result_of w g = Some (sig, w', g')"
  by (subst gen_next.simps) simp

lemma gen_next_silent:
  "gen_step ready result_of w g = (None, w', g') \<Longrightarrow>
   gen_next ready result_of w g = gen_next ready result_of w' g'"
  by (subst gen_next.simps) simp

lemma gen_step_created:
  assumes "heap w a = PyList fs"
  shows "gen_step ready result_of w (Created a) =
           (None, w\<lparr>heap := (heap w)(a := PyList [])\<rparr>,
            Suspended \<lparr>futures = fs, id_to_position_map = id_to_position fs,
                       pending = [], pbar = 0\<rparr>)"
  using assms by (simp add: make_copy_and_empty_given_def)

lemma for_each_silent:
  assumes "gen_step ready result_of w g = (None, w', g')"
  shows "for_each body ready result_of w g s = for_each body ready result_of w' g' s"
proof -
  have "gen_next ready result_of w g = gen_next ready result_of w' g'"
    using assms by (rule gen_next_silent)
  then show ?thesis
    by (simp add: for_each.simps[of body ready result_of w g s]
        for_each.simps[of body ready result_of w' g' s])
qed

lemma for_each_stop:
  assumes "gen_step ready result_of w g = (Some StopIteration, w', g')"
  shows "for_each body ready result_of w g s = Some (Inr s, w')"
  using gen_next_signal[OF assms] by (simp add: for_each.simps[of body ready result_of w g s])

lemma for_each_raise:
  assumes "gen_step ready result_of w g = (Some (Raise e), w', g')"
  shows "for_each body ready result_of w g s = Some (Inl e, w')"
  using gen_next_signal[OF assms] by (simp add: for_each.simps[of body ready result_of w g s])

lemma for_each_yield:
  assumes "gen_step ready result_of w g = (Some (Yield p v), w', g')"
  shows "for_each body ready result_of w g s =
     (case body (p, v) s of Inl e \<Rightarrow> Some (Inl e, w')
      | Inr s' \<Rightarrow> for_each body ready result_of w' g' s')"
  using gen_next_signal[OF assms] by (simp add: for_each.simps[of body ready result_of w g s])

lemma for_each_drain:
  assumes "pending fr = ps" and "fst ` set ps \<subseteq> dom (id_to_position_map fr)"
  shows "for_each body ready result_of w (Suspended fr) s =
     (case run_body body (map (emit (id_to_position_map fr)) ps) s of
        Inl e \<Rightarrow> Some (Inl e, w)
      | Inr s' \<Rightarrow> for_each body ready result_of w
                   (Suspended (fr\<lparr>pending := [], pbar := pbar fr + length ps\<rparr>)) s')"
  using assms
proof (induction ps arbitrary: fr s)
  case Nil
  then have "fr\<lparr>pending := [], pbar := pbar fr + length ([] :: ('a \<times> 'b) list)\<rparr> = fr" by simp
  then show ?case by simp
next
  case (Cons item ps)
  obtain f v where item: "item = (f, v)" by (cases item)
  with Cons.prems obtain p where p: "id_to_position_map fr f = Some p" by auto
  let ?fr = "fr\<lparr>pending := ps, pbar := pbar fr + 1\<rparr>"
  have step: "gen_step ready result_of w (Suspended fr) = (Some (Yield p v), w, Suspended ?fr)"
    using Cons.prems(1) item p by simp
  have ih: "for_each body ready result_of w (Suspended ?fr) s' =
     (case run_body body (map (emit (id_to_position_map fr)) ps) s' of
        Inl e \<Rightarrow> Some (Inl e, w)
      | Inr s'' \<Rightarrow> for_each body ready result_of w
                   (Suspended (fr\<lparr>pending := [], pbar := pbar fr + length (item # ps)\<rparr>)) s'')" for s'
  proof -
    have eq: "?fr\<lparr>pending := [], pbar := pbar ?fr + length ps\<rparr> =
              fr\<lparr>pending := [], pbar := pbar fr + length (item # ps)\<rparr>"
      by simp
    have "for_each body ready result_of w (Suspended ?fr) s' =
      (case run_body body (map (emit (id_to_position_map ?fr)) ps) s' of
         Inl e \<Rightarrow> Some (Inl e, w)
       | Inr s'' \<Rightarrow> for_each body ready result_of w
                   (Suspended (?fr\<lparr>pending := [], pbar := pbar ?fr + length ps\<rparr>)) s'')"
      using Cons.prems by (intro Cons.IH) auto
    then show ?thesis unfolding eq by simp
  qed
  have hd: "emit (id_to_position_map fr) item = (p, v)"
    by (simp add: emit_def item p)
  show ?case
  proof (cases "body (p, v) s")
    case (Inl e)
    then show ?thesis by (simp add: for_each_yield[OF step] hd)
  next
    case (Inr s')
    have "for_each body ready result_of w (Suspended fr) s =
          for_each body ready result_of w (Suspended ?fr) s'"
      by (simp add: for_each_yield[OF step] Inr)
    also note ih[of s']
    finally show ?thesis by (simp add: hd Inr)
  qed
qed

lemma emit_zip:
  "map (emit m) (zip hs (map g hs)) = map (\<lambda>f. (the (m f), g f)) hs"
  by (induction hs) (simp_all add: emit_def)

subsection \<open>The completion order\<close>

lemma eventually_bounded:
  "\<forall>f\<in>set fs. \<exists>j\<ge>k::nat. ready j f \<Longrightarrow> \<exists>n. \<forall>f\<in>set fs. \<exists>j. k \<le> j \<and> j < k + n \<and> ready j f"
proof (induction fs)
  case Nil
  then show ?case by simp
next
  case (Cons x xs)
  then obtain n where n: "\<forall>f\<in>set xs. \<exists>j. k \<le> j \<and> j < k + n \<and> ready j f" by auto
  from Cons.prems obtain j where j: "k \<le> j" "ready j x" by auto
  have "\<forall>f\<in>set (x # xs). \<exists>i. k \<le> i \<and> i < k + (n + Suc j) \<and> ready i f"
  proof
    fix f assume "f \<in> set (x # xs)"
    then consider "f = x" | "f \<in> set xs" by auto
    then show "\<exists>i. k \<le> i \<and> i < k + (n + Suc j) \<and> ready i f"
    proof cases
      case 1
      with j show ?thesis by (intro exI[of _ j]) simp
    next
      case 2
      with n obtain i where "k \<le> i" "i < k + n" "ready i f" by blast
      then show ?thesis by (intro exI[of _ i]) simp
    qed
  qed
  then show ?case by blast
qed

lemma poll_run_subset: "set (fst (poll_run ready result_of n k fs)) \<subseteq> set fs"
proof (induction n arbitrary: k fs)
  case 0
  show ?case by simp
next
  case (Suc n)
  have "set (fst (poll_run ready result_of n (Suc k) (filter (\<lambda>f. \<not> ready k f) fs)))
        \<subseteq> set (filter (\<lambda>f. \<not> ready k f) fs)"
    by (rule Suc.IH)
  then show ?case by (auto split: sum.splits prod.splits)
qed

lemma poll_run_distinct:
  "distinct fs \<Longrightarrow> distinct (fst (poll_run ready result_of n k fs))"
proof (induction n arbitrary: k fs)
  case 0
  show ?case by simp
next
  case (Suc n)
  let ?rest = "filter (\<lambda>f. \<not> ready k f) fs"
  have "distinct (fst (poll_run ready result_of n (Suc k) ?rest))"
    using Suc.prems by (intro Suc.IH) simp
  moreover have "set (fst (poll_run ready result_of n (Suc k) ?rest)) \<subseteq> set ?rest"
    by (rule poll_run_subset)
  ultimately show ?case using Suc.prems by (auto split: sum.splits prod.splits)
qed

lemma poll_run_complete:
  "\<forall>f\<in>set fs. \<exists>j. k \<le> j \<and> j < k + n \<and> ready j f \<Longrightarrow>
   snd (poll_run ready result_of n k fs) = None \<Longrightarrow>
   set fs \<subseteq> set (fst (poll_run ready result_of n k fs))"
  for k :: nat
proof (induction n arbitrary: k fs)
  case 0
  then have "fs = []" by (cases fs) auto
  then show ?case by simp
next
  case (Suc n)
  let ?rest = "filter (\<lambda>f. \<not> ready k f) fs"
  have later: "\<forall>f\<in>set ?rest. \<exists>j. Suc k \<le> j \<and> j < Suc k + n \<and> ready j f"
  proof
    fix f assume f: "f \<in> set ?rest"
    with Suc.prems(1) obtain j where j: "k \<le> j" "j < k + Suc n" "ready j f" by auto
    with f have "j \<noteq> k" by auto
    with j show "\<exists>j. Suc k \<le> j \<and> j < Suc k + n \<and> ready j f"
      by (intro exI[of _ j]) simp
  qed
  show ?case
  proof (cases "fs = []")
    case True
    then show ?thesis by simp
  next
    case False
    with Suc.prems(2) obtain vs where vs: "ray_get result_of (filter (ready k) fs) = Inr vs"
      by (cases "ray_get result_of (filter (ready k) fs)") auto
    with False Suc.prems(2) have "snd (poll_run ready result_of n (Suc k) ?rest) = None"
      by (simp split: prod.splits)
    with later have "set ?rest \<subseteq> set (fst (poll_run ready result_of n (Suc k) ?rest))"
      by (rule Suc.IH)
    with False vs show ?thesis by (auto split: prod.splits)
  qed
qed

lemma poll_run_no_failure:
  "\<forall>f\<in>set fs. result_of f = Inr (val f) \<Longrightarrow> snd (poll_run ready result_of n k fs) = None"
proof (induction n arbitrary: k fs)
  case 0
  show ?case by simp
next
  case (Suc n)
  have "ray_get result_of (filter (ready k) fs) = Inr (map val (filter (ready k) fs))"
    using Suc.prems by (intro ray_get_values) simp
  moreover have "snd (poll_run ready result_of n (Suc k) (filter (\<lambda>f. \<not> ready k f) fs)) = None"
    using Suc.prems by (intro Suc.IH) simp
  ultimately show ?case by (auto split: prod.splits)
qed

lemma poll_run_set:
  "\<forall>f\<in>set fs. \<exists>j. k \<le> j \<and> j < k + n \<and> ready j f \<Longrightarrow>
   snd (poll_run ready result_of n k fs) = None \<Longrightarrow>
   set (fst (poll_run ready result_of n k fs)) = set fs"
  for k :: nat
  using poll_run_subset[of ready result_of n k fs] poll_run_complete[of fs k n ready result_of]
  by blast

lemma same_length:
  assumes "distinct fs" and "distinct hs" and "set hs = set fs"
  shows "length hs = length fs"
  using assms by (metis distinct_card)

subsection \<open>A \<open>for\<close> loop over the generator, run to its end\<close>

lemma for_each_poll:
  assumes "distinct (futures fr)" and "pending fr = []"
    and "\<forall>f\<in>set (futures fr). \<exists>j. polls w \<le> j \<and> j < polls w + n \<and> ready j f"
    and "set (futures fr) \<subseteq> dom (id_to_position_map fr)"
  shows "\<exists>w'. for_each body ready result_of w (Suspended fr) s =
           Some (run_all body
                   (map (\<lambda>f. (the (id_to_position_map fr f), projr (result_of f)))
                      (fst (poll_run ready result_of n (polls w) (futures fr))))
                   (snd (poll_run ready result_of n (polls w) (futures fr))) s, w')
         \<and> heap w' = heap w"
  using assms
proof (induction n arbitrary: w fr s)
  case 0
  then have "futures fr = []" by (cases "futures fr") auto
  with "0.prems"(2)
  have "gen_step ready result_of w (Suspended fr) = (Some StopIteration, w, Finished)"
    by simp
  from for_each_stop[OF this, of body s] show ?case by (simp add: run_all_def)
next
  case (Suc n)
  show ?case
  proof (cases "futures fr = []")
    case True
    with Suc.prems(2)
    have "gen_step ready result_of w (Suspended fr) = (Some StopIteration, w, Finished)"
      by simp
    from for_each_stop[OF this, of body s] True show ?thesis by (simp add: run_all_def)
  next
    case False
    let ?k = "polls w"
    let ?m = "id_to_position_map fr"
    let ?done = "filter (ready ?k) (futures fr)"
    let ?rest = "filter (\<lambda>f. \<not> ready ?k f) (futures fr)"
    let ?w1 = "w\<lparr>polls := Suc ?k\<rparr>"
    show ?thesis
    proof (cases "ray_get result_of ?done")
      case (Inl e)
      have "gen_step ready result_of w (Suspended fr) = (Some (Raise e), ?w1, Finished)"
        using False Suc.prems(1,2) Inl by (simp add: ray_wait_def comp_def)
      from for_each_raise[OF this, of body s] False Inl show ?thesis
        by (simp add: run_all_def)
    next
      case (Inr vs)
      let ?g = "\<lambda>h. projr (result_of h)"
      have vs: "vs = map ?g ?done" using Inr by (rule ray_get_Inr)
      let ?fr1 = "fr\<lparr>futures := ?rest, pending := zip ?done vs\<rparr>"
      let ?fr2 = "?fr1\<lparr>pending := [], pbar := pbar ?fr1 + length (zip ?done vs)\<rparr>"
      obtain hs err where run: "poll_run ready result_of n (Suc ?k) ?rest = (hs, err)"
        by (cases "poll_run ready result_of n (Suc ?k) ?rest")
      have step: "gen_step ready result_of w (Suspended fr) = (None, ?w1, Suspended ?fr1)"
        using False Suc.prems(1,2) Inr by (simp add: ray_wait_def comp_def)
      have dom1: "fst ` set (zip ?done vs) \<subseteq> dom (id_to_position_map ?fr1)"
        using Suc.prems(4) by (auto dest!: set_zip_leftD)
      have later: "\<forall>f\<in>set (futures ?fr2). \<exists>j. polls ?w1 \<le> j \<and> j < polls ?w1 + n \<and> ready j f"
      proof
        fix f assume f: "f \<in> set (futures ?fr2)"
        then have "f \<in> set (futures fr)" and nr: "\<not> ready ?k f" by auto
        with Suc.prems(3) obtain j where j: "?k \<le> j" "j < ?k + Suc n" "ready j f" by blast
        with nr have "j \<noteq> ?k" by auto
        with j show "\<exists>j. polls ?w1 \<le> j \<and> j < polls ?w1 + n \<and> ready j f"
          by (intro exI[of _ j]) simp
      qed
      have ih: "\<exists>w'. for_each body ready result_of ?w1 (Suspended ?fr2) s' =
             Some (run_all body (map (\<lambda>f. (the (?m f), ?g f)) hs) err s', w')
           \<and> heap w' = heap w" for s'
        using Suc.IH[of ?fr2 ?w1 s'] Suc.prems(1,4) later run by auto
      have drain: "for_each body ready result_of ?w1 (Suspended ?fr1) s =
         (case run_body body (map (\<lambda>f. (the (?m f), ?g f)) ?done) s of
            Inl e \<Rightarrow> Some (Inl e, ?w1)
          | Inr s' \<Rightarrow> for_each body ready result_of ?w1 (Suspended ?fr2) s')"
      proof -
        have pend1: "pending ?fr1 = zip ?done vs" by simp
        have m1: "id_to_position_map ?fr1 = ?m" by simp
        have z: "map (emit ?m) (zip ?done vs) = map (\<lambda>f. (the (?m f), ?g f)) ?done"
          unfolding vs by (rule emit_zip)
        show ?thesis
          using for_each_drain[OF pend1 dom1, of body ready result_of ?w1 s]
          unfolding m1 z .
      qed
      have order: "poll_run ready result_of (Suc n) ?k (futures fr) = (?done @ hs, err)"
        using False Inr run by simp
      show ?thesis
      proof (cases "run_body body (map (\<lambda>f. (the (?m f), ?g f)) ?done) s")
        case (Inl e)
        then show ?thesis
          unfolding for_each_silent[OF step] drain order
          by (simp add: run_all_append)
      next
        case (Inr s')
        with ih[of s'] show ?thesis
          unfolding for_each_silent[OF step] drain order
          by (simp add: run_all_append)
      qed
    qed
  qed
qed

lemma for_each_created:
  assumes "heap w a = PyList fs" and "distinct fs"
    and "\<forall>f\<in>set fs. \<exists>j. polls w \<le> j \<and> j < polls w + n \<and> ready j f"
  shows "\<exists>w'. for_each body ready (result_of :: 'h \<Rightarrow> error + 'v) (w :: 'h world) (Created a) s =
           Some (run_all body
                   (map (\<lambda>f. (the (id_to_position fs f), projr (result_of f)))
                      (fst (poll_run ready result_of n (polls w) fs)))
                   (snd (poll_run ready result_of n (polls w) fs)) s, w')
         \<and> heap w' = (heap w)(a := PyList [])"
proof -
  let ?w1 = "w\<lparr>heap := (heap w)(a := PyList [])\<rparr>"
  let ?fr = "\<lparr>futures = fs, id_to_position_map = id_to_position fs,
              pending = [] :: ('h \<times> 'v) list, pbar = 0\<rparr>"
  have step: "gen_step ready result_of w (Created a) = (None, ?w1, Suspended ?fr)"
    using assms(1) by (simp add: make_copy_and_empty_given_def)
  have "\<exists>w'. for_each body ready result_of ?w1 (Suspended ?fr) s =
           Some (run_all body
                   (map (\<lambda>f. (the (id_to_position_map ?fr f), projr (result_of f)))
                      (fst (poll_run ready result_of n (polls ?w1) (futures ?fr))))
                   (snd (poll_run ready result_of n (polls ?w1) (futures ?fr))) s, w')
         \<and> heap w' = heap ?w1"
    using assms(2,3) by (intro for_each_poll) (simp_all add: id_to_position_dom)
  then show ?thesis
    unfolding for_each_silent[OF step] by simp
qed

lemma for_each_duplicates:
  assumes "heap w a = PyList fs" and "\<not> distinct fs"
  shows "for_each body ready (result_of :: 'h \<Rightarrow> error + 'v) (w :: 'h world) (Created a) s =
           Some (Inl ValueError, w\<lparr>heap := (heap w)(a := PyList []), polls := Suc (polls w)\<rparr>)"
proof -
  let ?w1 = "w\<lparr>heap := (heap w)(a := PyList [])\<rparr>"
  let ?fr = "\<lparr>futures = fs, id_to_position_map = id_to_position fs,
              pending = [] :: ('h \<times> 'v) list, pbar = 0\<rparr>"
  have step: "gen_step ready result_of w (Created a) = (None, ?w1, Suspended ?fr)"
    using assms(1) by (simp add: make_copy_and_empty_given_def)
  from assms(2) have "fs \<noteq> []" by auto
  with assms(2)
  have "gen_step ready result_of ?w1 (Suspended ?fr) =
          (Some (Raise ValueError), ?w1\<lparr>polls := Suc (polls ?w1)\<rparr>, Finished)"
    by (simp add: ray_wait_def)
  from for_each_raise[OF this, of body s] show ?thesis
    unfolding for_each_silent[OF step] by simp
qed

lemma for_each_not_a_list:
  assumes "\<forall>xs. heap w a \<noteq> PyList xs"
  shows "for_each body ready result_of w (Created a) s = Some (Inl ValueError, w)"
proof -
  have "gen_step ready result_of w (Created a) = (Some (Raise ValueError), w, Finished)"
    using assms by (cases "heap w a") simp_all
  from for_each_raise[OF this, of body s] show ?thesis .
qed

lemma for_each_returns:
  assumes "heap w a = PyList fs" and "\<forall>f\<in>set fs. \<exists>j\<ge>polls w. ready j f"
  shows "\<exists>out w'. for_each body ready result_of w (Created a) s = Some (out, w')"
proof (cases "distinct fs")
  case True
  from eventually_bounded[OF assms(2)]
  obtain n where n: "\<forall>f\<in>set fs. \<exists>j. polls w \<le> j \<and> j < polls w + n \<and> ready j f" ..
  from for_each_created[OF assms(1) True n, of body result_of s] show ?thesis by blast
next
  case False
  from for_each_duplicates[OF assms(1) False, of body ready result_of s] show ?thesis by blast
qed

subsection \<open>The results list and the emitted pairs\<close>

lemma run_body_store:
  assumes "distinct fs" and "distinct hs" and "set hs \<subseteq> set fs" and "length res = length fs"
  shows "run_body store_result (map (\<lambda>f. (the (id_to_position fs f), result_of f)) hs) res =
         Inr (map (\<lambda>i. if fs ! i \<in> set hs then Some (result_of (fs ! i)) else res ! i)
                [0..<length fs])"
  using assms(2-)
proof (induction hs arbitrary: res)
  case Nil
  then show ?case using map_nth[of res] by simp
next
  case (Cons h hs)
  from Cons.prems obtain p where p: "p < length fs" "fs ! p = h"
    by (auto simp: in_set_conv_nth)
  with assms(1) have pos: "id_to_position fs h = Some p"
    using id_to_position_nth by fastforce
  let ?res = "res[p := Some (result_of h)]"
  have "run_body store_result (map (\<lambda>f. (the (id_to_position fs f), result_of f)) hs) ?res =
         Inr (map (\<lambda>i. if fs ! i \<in> set hs then Some (result_of (fs ! i)) else ?res ! i)
                [0..<length fs])"
    using Cons.prems by (intro Cons.IH) simp_all
  moreover have "map (\<lambda>i. if fs ! i \<in> set hs then Some (result_of (fs ! i)) else ?res ! i)
                   [0..<length fs] =
                 map (\<lambda>i. if fs ! i \<in> set (h # hs) then Some (result_of (fs ! i)) else res ! i)
                   [0..<length fs]"
  proof (rule map_cong[OF refl])
    fix i assume "i \<in> set [0..<length fs]"
    then have i: "i < length fs" by simp
    show "(if fs ! i \<in> set hs then Some (result_of (fs ! i)) else ?res ! i) =
          (if fs ! i \<in> set (h # hs) then Some (result_of (fs ! i)) else res ! i)"
    proof (cases "i = p")
      case True
      with p Cons.prems(3) show ?thesis by simp
    next
      case False
      with assms(1) i p have "fs ! i \<noteq> h" by (auto simp: nth_eq_iff_index_eq)
      with False show ?thesis by simp
    qed
  qed
  moreover have "store_result (p, result_of h) res = Inr ?res"
    using p Cons.prems(3) by (simp add: store_result_def)
  ultimately show ?case
    by (simp add: pos)
qed

lemma map_of_emitted:
  assumes "distinct fs" and "set hs = set fs" and "i < length fs"
  shows "map_of (map (\<lambda>f. (the (id_to_position fs f), result_of f)) hs) i =
         Some (result_of (fs ! i))"
proof -
  have pos: "the (id_to_position fs f) = i \<longleftrightarrow> f = fs ! i" if "f \<in> set fs" for f
  proof -
    from that obtain p where p: "p < length fs" "fs ! p = f" by (auto simp: in_set_conv_nth)
    with assms(1) have "id_to_position fs f = Some p"
      using id_to_position_nth by fastforce
    with p assms(1,3) show ?thesis by (auto simp: nth_eq_iff_index_eq)
  qed
  have "fs ! i \<in> set hs" using assms(2,3) by simp
  moreover have "set hs \<subseteq> set fs" using assms(2) by simp
  ultimately show ?thesis
  proof (induction hs)
    case Nil
    then show ?case by simp
  next
    case (Cons h hs)
    show ?case
    proof (cases "h = fs ! i")
      case True
      with Cons.prems(2) pos[of h] have "the (id_to_position fs h) = i" by simp
      with True show ?thesis by simp
    next
      case False
      with Cons.prems(2) pos[of h] have "the (id_to_position fs h) \<noteq> i" by simp
      moreover from False Cons.prems have "fs ! i \<in> set hs" "set hs \<subseteq> set fs" by auto
      ultimately show ?thesis using Cons.IH by simp
    qed
  qed
qed

lemma emitted_pairs_set:
  assumes "distinct fs" and "set hs = set fs"
  shows "set (map (\<lambda>f. (the (id_to_position fs f), result_of f)) hs) =
         (\<lambda>i. (i, result_of (fs ! i))) ` {..<length fs}"
proof (intro equalityI subsetI)
  fix x assume "x \<in> set (map (\<lambda>f. (the (id_to_position fs f), result_of f)) hs)"
  then obtain f where f: "f \<in> set fs" "x = (the (id_to_position fs f), result_of f)"
    using assms(2) by auto
  from position_of[OF assms(1) f(1)] obtain i where
    "i < length fs" "fs ! i = f" "id_to_position fs f = Some i" by blast
  with f(2) show "x \<in> (\<lambda>i. (i, result_of (fs ! i))) ` {..<length fs}" by auto
next
  fix x assume "x \<in> (\<lambda>i. (i, result_of (fs ! i))) ` {..<length fs}"
  then obtain i where i: "i < length fs" "x = (i, result_of (fs ! i))" by auto
  then have "fs ! i \<in> set hs" using assms(2) by simp
  moreover have "the (id_to_position fs (fs ! i)) = i"
    using id_to_position_nth[OF assms(1) i(1)] by simp
  ultimately show "x \<in> set (map (\<lambda>f. (the (id_to_position fs f), result_of f)) hs)"
    using i(2) by force
qed

lemma emitted_positions_distinct:
  assumes "distinct fs" and "distinct hs" and "set hs = set fs"
  shows "distinct (map fst (map (\<lambda>f. (the (id_to_position fs f), result_of f)) hs))"
proof -
  have "inj_on (\<lambda>f. the (id_to_position fs f)) (set hs)"
  proof (rule inj_onI)
    fix f g assume fg: "f \<in> set hs" "g \<in> set hs"
      and eq: "the (id_to_position fs f) = the (id_to_position fs g)"
    from fg assms(3) position_of[OF assms(1)] obtain i j where
      "fs ! i = f" "id_to_position fs f = Some i" "fs ! j = g" "id_to_position fs g = Some j"
      by metis
    with eq show "f = g" by simp
  qed
  with assms(2) show ?thesis by (simp add: distinct_map comp_def)
qed

subsection \<open>The heap after the start of the body\<close>

lemma gen_step_started:
  assumes "gen_step ready result_of w g = (sig, w', g')" and "\<forall>a. g \<noteq> Created a"
  shows "heap w' = heap w \<and> (\<forall>a. g' \<noteq> Created a)"
proof (cases g)
  case (Created a)
  with assms(2) show ?thesis by simp
next
  case (Suspended fr)
  with assms(1) show ?thesis
    by (auto simp: ray_wait_def split: list.splits option.splits if_splits sum.splits)
next
  case Finished
  with assms(1) show ?thesis by auto
qed

lemma gen_next_started:
  assumes "gen_next ready result_of w g = Some y" and "\<forall>a. g \<noteq> Created a"
  shows "heap (fst (snd y)) = heap w \<and> (\<forall>a. snd (snd y) \<noteq> Created a)"
proof -
  from assms(1)
  have "(\<forall>a. g \<noteq> Created a) \<longrightarrow>
        heap (fst (snd y)) = heap w \<and> (\<forall>a. snd (snd y) \<noteq> Created a)"
  proof (rule gen_next.raw_induct[rotated, where
        P = "\<lambda>ready result_of w g y. (\<forall>a. g \<noteq> Created a) \<longrightarrow>
               heap (fst (snd y)) = heap w \<and> (\<forall>a. snd (snd y) \<noteq> Created a)"],
      goal_cases)
    case prems: (1 gen_next' ready result_of w g y)
    note IH = prems(1) and unfolded = prems(2)
    show ?case
    proof
      assume started: "\<forall>a. g \<noteq> Created a"
      obtain sig w1 g1 where step: "gen_step ready result_of w g = (sig, w1, g1)"
        by (cases "gen_step ready result_of w g")
      from gen_step_started[OF step started]
      have w1: "heap w1 = heap w" and g1: "\<forall>a. g1 \<noteq> Created a" by simp_all
      show "heap (fst (snd y)) = heap w \<and> (\<forall>a. snd (snd y) \<noteq> Created a)"
      proof (cases sig)
        case None
        with unfolded step have "gen_next' ready result_of w1 g1 = Some y" by simp
        from IH[OF this] g1 w1 show ?thesis by simp
      next
        case (Some s)
        with unfolded step have "y = (s, w1, g1)" by simp
        with w1 g1 show ?thesis by simp
      qed
    qed
  qed
  with assms(2) show ?thesis by simp
qed

lemma for_each_started:
  assumes "for_each body ready result_of w g s = Some y" and "\<forall>a. g \<noteq> Created a"
  shows "heap (snd y) = heap w"
proof -
  from assms(1)
  have "(\<forall>a. g \<noteq> Created a) \<longrightarrow> heap (snd y) = heap w"
  proof (rule for_each.raw_induct[rotated, where
        P = "\<lambda>body ready result_of w g s y. (\<forall>a. g \<noteq> Created a) \<longrightarrow> heap (snd y) = heap w"],
      goal_cases)
    case prems: (1 for_each' body ready result_of w g s y)
    note IH = prems(1) and unfolded = prems(2)
    show ?case
    proof
      assume started: "\<forall>a. g \<noteq> Created a"
      from unfolded obtain sig w1 g1 where
        nxt: "gen_next ready result_of w g = Some (sig, w1, g1)"
        by (cases "gen_next ready result_of w g") auto
      from gen_next_started[OF nxt started]
      have w1: "heap w1 = heap w" and g1: "\<forall>a. g1 \<noteq> Created a" by simp_all
      show "heap (snd y) = heap w"
      proof (cases sig)
        case (Yield p v)
        show ?thesis
        proof (cases "body (p, v) s")
          case (Inl e)
          with unfolded nxt Yield w1 show ?thesis by auto
        next
          case (Inr s')
          with unfolded nxt Yield have "for_each' body ready result_of w1 g1 s' = Some y"
            by simp
          from IH[OF this] g1 w1 show ?thesis by simp
        qed
      next
        case StopIteration
        with unfolded nxt w1 show ?thesis by auto
      next
        case (Raise e)
        with unfolded nxt w1 show ?thesis by auto
      qed
    qed
  qed
  with assms(2) show ?thesis by simp
qed

subsection \<open>Evaluating a run\<close>

lemmas run_simps =
  join_ray_futures_def join_ray_futures_iter_def emitted_def for_each.simps gen_next.simps
  make_copy_and_empty_given_def id_to_position_def ray_wait_def store_result_def
  enumerate_eq_zip

section \<open>The claims\<close>

text \<open>
  C1, as amended. For every list of \<open>N\<close> pairwise distinct futures given to the eager join
  \<open>join_ray_futures\<close>, each with a value (no task failed), in whatever order the futures
  complete (each of them is reported as completed by some wait), the call returns a list
  of exactly \<open>N\<close> results in which the result at index \<open>i\<close> is the value of the \<open>i\<close>-th
  future of the input list.
\<close>

theorem join_ray_futures_in_input_order:
  assumes "heap w a = PyList fs" and "distinct fs"
    and "\<forall>f\<in>set fs. \<exists>j\<ge>polls w. ready j f"
    and "\<forall>f\<in>set fs. result_of f = Inr (val f)"
  shows "\<exists>results w'. join_ray_futures ready result_of w a = Some (Inr results, w')
           \<and> length results = length fs
           \<and> (\<forall>i<length fs. results ! i = Some (val (fs ! i)))"
proof -
  from eventually_bounded[OF assms(3)]
  obtain n where n: "\<forall>f\<in>set fs. \<exists>j. polls w \<le> j \<and> j < polls w + n \<and> ready j f" ..
  let ?hs = "fst (poll_run ready result_of n (polls w) fs)"
  let ?g = "\<lambda>f. projr (result_of f)"
  have ok: "snd (poll_run ready result_of n (polls w) fs) = None"
    using assms(4) by (rule poll_run_no_failure)
  have hs: "distinct ?hs" "set ?hs = set fs"
    using assms(2) n ok by (simp_all add: poll_run_distinct poll_run_set)
  from for_each_created[OF assms(1,2) n, of store_result result_of "replicate (length fs) None"]
  obtain w' where "for_each store_result ready result_of w (Created a) (replicate (length fs) None) =
      Some (run_body store_result (map (\<lambda>f. (the (id_to_position fs f), ?g f)) ?hs)
              (replicate (length fs) None), w')"
    unfolding ok run_all_def by (auto split: sum.splits)
  moreover have "run_body store_result (map (\<lambda>f. (the (id_to_position fs f), ?g f)) ?hs)
              (replicate (length fs) None) =
         Inr (map (\<lambda>i. Some (?g (fs ! i))) [0..<length fs])"
    using run_body_store[OF assms(2) hs(1), of "replicate (length fs) None" ?g] hs(2)
    by simp
  moreover have "map (\<lambda>i. Some (?g (fs ! i))) [0..<length fs] =
                 map (\<lambda>i. Some (val (fs ! i))) [0..<length fs]"
    using assms(4) by (intro map_cong[OF refl]) simp
  ultimately have "join_ray_futures ready result_of w a =
      Some (Inr (map (\<lambda>i. Some (val (fs ! i))) [0..<length fs]), w')"
    using assms(1) by (simp add: join_ray_futures_def join_ray_futures_iter_def)
  then show ?thesis by simp
qed

text \<open>
  Scenario 4: the output at index 3 is the value of future number 3, which resolves last;
  the run itself, evaluated, takes four waits.
\<close>

theorem join_ray_futures_in_input_order_witness:
  "heap scenario4 0 = PyList [10, 11, 12, 13, 14]
   \<and> distinct [10, 11, 12, 13, 14 :: nat]
   \<and> doubled 13 = Inr 26
   \<and> (\<exists>results w'. join_ray_futures future3_last doubled scenario4 0 = Some (Inr results, w')
         \<and> length results = 5 \<and> results ! 3 = Some 26)
   \<and> join_ray_futures future3_last doubled scenario4 0 =
       Some (Inr [Some 20, Some 22, Some 24, Some 26, Some 28],
             scenario4\<lparr>heap := (heap scenario4)(0 := PyList []), polls := 4\<rparr>)"
proof -
  have run: "join_ray_futures future3_last doubled scenario4 0 =
       Some (Inr [Some 20, Some 22, Some 24, Some 26, Some 28],
             scenario4\<lparr>heap := (heap scenario4)(0 := PyList []), polls := 4\<rparr>)"
    by (simp add: scenario4_def future3_last_def doubled_def twice_def run_simps)
  have h1: "heap scenario4 0 = PyList [10, 11, 12, 13, 14]" by (simp add: scenario4_def)
  have h2: "distinct [10, 11, 12, 13, 14 :: nat]" by simp
  have h3: "\<forall>f\<in>set [10, 11, 12, 13, 14]. \<exists>j\<ge>polls scenario4. future3_last j f"
    by (simp add: scenario4_def future3_last_def)
  have h4: "\<forall>f\<in>set [10, 11, 12, 13, 14]. doubled f = Inr (twice f)"
    by (simp add: doubled_def)
  have v: "doubled 13 = Inr 26" by (simp add: doubled_def twice_def)
  from join_ray_futures_in_input_order[OF h1 h2 h3 h4]
  obtain results w' where r: "join_ray_futures future3_last doubled scenario4 0 = Some (Inr results, w')"
    "length results = length [10, 11, 12, 13, 14 :: nat]"
    "\<forall>i<length [10, 11, 12, 13, 14 :: nat]. results ! i = Some (twice ([10, 11, 12, 13, 14] ! i))"
    by blast
  from r(2) have len: "length results = 5" by simp
  from r(3) have "results ! 3 = Some (twice ([10, 11, 12, 13, 14] ! 3))" by simp
  then have "results ! 3 = Some 26" by (simp add: twice_def)
  with h1 h2 v r(1) len run show ?thesis by blast
qed

text \<open>
  C1 as stated fails on a list that holds the same future twice: the first wait refuses
  the list, and the call raises ValueError instead of returning two results. It fails
  as well on scenario 4 when the task of one future has failed: \<open>ray.get\<close> raises at the
  second wait, and the call raises instead of returning five results.
\<close>

theorem join_ray_futures_repeated_future:
  "heap repeated_future 0 = PyList [7, 7]
   \<and> join_ray_futures always_ready doubled repeated_future 0 =
       Some (Inl ValueError, repeated_future\<lparr>heap := (heap repeated_future)(0 := PyList []), polls := 1\<rparr>)
   \<and> heap scenario4 0 = PyList [10, 11, 12, 13, 14]
   \<and> one_failed 12 = Inl RayTaskError
   \<and> join_ray_futures future3_last one_failed scenario4 0 =
       Some (Inl RayTaskError, scenario4\<lparr>heap := (heap scenario4)(0 := PyList []), polls := 2\<rparr>)"
proof -
  have "join_ray_futures always_ready doubled repeated_future 0 =
       Some (Inl ValueError, repeated_future\<lparr>heap := (heap repeated_future)(0 := PyList []), polls := 1\<rparr>)"
    by (simp add: repeated_future_def always_ready_def run_simps)
  moreover have "join_ray_futures future3_last one_failed scenario4 0 =
       Some (Inl RayTaskError, scenario4\<lparr>heap := (heap scenario4)(0 := PyList []), polls := 2\<rparr>)"
    by (simp add: scenario4_def future3_last_def one_failed_def doubled_def twice_def run_simps)
  ultimately show ?thesis
    by (simp add: repeated_future_def scenario4_def one_failed_def)
qed

text \<open>
  C2, as amended. For every list of \<open>N\<close> pairwise distinct futures given to the lazy joiner
  \<open>join_ray_futures_iter\<close>, each with a value (no task failed) and each reported as
  completed by some wait, the
  generator, run to its end, emits exactly \<open>N\<close> pairs (position, value), no position twice,
  and the pairs are exactly the pairs of a position of the input list and the value of the
  future at that position; the position comes from the identity map. The generator stops
  only when no future is tracked and none is left to emit.
\<close>

theorem join_ray_futures_iter_emits_each_position:
  assumes "heap w a = PyList fs" and "distinct fs"
    and "\<forall>f\<in>set fs. \<exists>j\<ge>polls w. ready j f"
    and "\<forall>f\<in>set fs. result_of f = Inr (val f)"
  shows "(\<exists>pairs w'. emitted ready result_of w (join_ray_futures_iter a) = Some (Inr pairs, w')
            \<and> length pairs = length fs
            \<and> distinct (map fst pairs)
            \<and> set pairs = (\<lambda>i. (i, val (fs ! i))) ` {..<length fs})
         \<and> (\<forall>w1 fr w2 g. gen_step ready result_of w1 (Suspended fr) = (Some StopIteration, w2, g)
               \<longrightarrow> futures fr = [] \<and> pending fr = [])"
proof
  from eventually_bounded[OF assms(3)]
  obtain n where n: "\<forall>f\<in>set fs. \<exists>j. polls w \<le> j \<and> j < polls w + n \<and> ready j f" ..
  let ?hs = "fst (poll_run ready result_of n (polls w) fs)"
  let ?g = "\<lambda>f. projr (result_of f)"
  let ?pairs = "map (\<lambda>f. (the (id_to_position fs f), ?g f)) ?hs"
  have ok: "snd (poll_run ready result_of n (polls w) fs) = None"
    using assms(4) by (rule poll_run_no_failure)
  have hs: "distinct ?hs" "set ?hs = set fs"
    using assms(2) n ok by (simp_all add: poll_run_distinct poll_run_set)
  from for_each_created[OF assms(1,2) n, of "\<lambda>item acc. Inr (acc @ [item])" result_of "[]"]
  obtain w' where "emitted ready result_of w (join_ray_futures_iter a) = Some (Inr ?pairs, w')"
    unfolding ok run_all_def
    by (auto simp: emitted_def join_ray_futures_iter_def run_body_collect)
  moreover have "length ?pairs = length fs"
    using same_length[OF assms(2) hs] by simp
  moreover note emitted_positions_distinct[OF assms(2) hs, of ?g]
  moreover have "set ?pairs = (\<lambda>i. (i, val (fs ! i))) ` {..<length fs}"
  proof -
    have "(\<lambda>i. (i, ?g (fs ! i))) ` {..<length fs} = (\<lambda>i. (i, val (fs ! i))) ` {..<length fs}"
      using assms(4) by (intro image_cong) simp_all
    with emitted_pairs_set[OF assms(2) hs(2), of ?g] show ?thesis by simp
  qed
  ultimately show "\<exists>pairs w'. emitted ready result_of w (join_ray_futures_iter a) = Some (Inr pairs, w')
            \<and> length pairs = length fs
            \<and> distinct (map fst pairs)
            \<and> set pairs = (\<lambda>i. (i, val (fs ! i))) ` {..<length fs}"
    by blast
next
  show "\<forall>w1 fr w2 g. gen_step ready result_of w1 (Suspended fr) = (Some StopIteration, w2, g)
               \<longrightarrow> futures fr = [] \<and> pending fr = []"
    by (auto simp: ray_wait_def split: list.splits option.splits if_splits sum.splits)
qed

text \<open>
  Scenario 4: five pairs, among them position 3 with the value of future number 3; in the
  run itself, evaluated, that pair is emitted last.
\<close>

theorem join_ray_futures_iter_emits_each_position_witness:
  "heap scenario4 0 = PyList [10, 11, 12, 13, 14]
   \<and> distinct [10, 11, 12, 13, 14 :: nat]
   \<and> doubled 13 = Inr 26
   \<and> (\<exists>pairs w'. emitted future3_last doubled scenario4 (join_ray_futures_iter 0) = Some (Inr pairs, w')
         \<and> length pairs = 5 \<and> distinct (map fst pairs) \<and> (3, 26) \<in> set pairs)
   \<and> emitted future3_last doubled scenario4 (join_ray_futures_iter 0) =
       Some (Inr [(0, 20), (1, 22), (2, 24), (4, 28), (3, 26)],
             scenario4\<lparr>heap := (heap scenario4)(0 := PyList []), polls := 4\<rparr>)"
proof -
  have run: "emitted future3_last doubled scenario4 (join_ray_futures_iter 0) =
       Some (Inr [(0, 20), (1, 22), (2, 24), (4, 28), (3, 26)],
             scenario4\<lparr>heap := (heap scenario4)(0 := PyList []), polls := 4\<rparr>)"
    by (simp add: scenario4_def future3_last_def doubled_def twice_def run_simps)
  have h1: "heap scenario4 0 = PyList [10, 11, 12, 13, 14]" by (simp add: scenario4_def)
  have h2: "distinct [10, 11, 12, 13, 14 :: nat]" by simp
  have h3: "\<forall>f\<in>set [10, 11, 12, 13, 14]. \<exists>j\<ge>polls scenario4. future3_last j f"
    by (simp add: scenario4_def future3_last_def)
  have h4: "\<forall>f\<in>set [10, 11, 12, 13, 14]. doubled f = Inr (twice f)"
    by (simp add: doubled_def)
  have v: "doubled 13 = Inr 26" by (simp add: doubled_def twice_def)
  from join_ray_futures_iter_emits_each_position[OF h1 h2 h3 h4]
  have "\<exists>pairs w'. emitted future3_last doubled scenario4 (join_ray_futures_iter 0) = Some (Inr pairs, w')
            \<and> length pairs = length [10, 11, 12, 13, 14 :: nat]
            \<and> distinct (map fst pairs)
            \<and> set pairs = (\<lambda>i. (i, twice ([10, 11, 12, 13, 14] ! i))) ` {..<length [10, 11, 12, 13, 14 :: nat]}"
    by (rule conjunct1)
  then obtain pairs w' where r:
    "emitted future3_last doubled scenario4 (join_ray_futures_iter 0) = Some (Inr pairs, w')"
    "length pairs = length [10, 11, 12, 13, 14 :: nat]" "distinct (map fst pairs)"
    "set pairs = (\<lambda>i. (i, twice ([10, 11, 12, 13, 14] ! i))) ` {..<length [10, 11, 12, 13, 14 :: nat]}"
    by blast
  from r(2) have len: "length pairs = 5" by simp
  have "(3, 26) \<in> (\<lambda>i. (i, twice ([10, 11, 12, 13, 14] ! i))) ` {..<length [10, 11, 12, 13, 14 :: nat]}"
    by (rule image_eqI[of _ _ 3]) (simp_all add: twice_def)
  with r(4) have "(3, 26) \<in> set pairs" by simp
  with h1 h2 v r(1,3) len run show ?thesis by blast
qed

text \<open>
  C2 as stated fails on a list that holds the same future twice: the generator emits no
  pair at all and raises ValueError at the first wait. It fails as well on scenario 4
  when the task of one future has failed: the generator raises at the second wait, with
  no pair emitted.
\<close>

theorem join_ray_futures_iter_repeated_future:
  "heap repeated_future 0 = PyList [7, 7]
   \<and> emitted always_ready doubled repeated_future (join_ray_futures_iter 0) =
       Some (Inl ValueError, repeated_future\<lparr>heap := (heap repeated_future)(0 := PyList []), polls := 1\<rparr>)
   \<and> heap scenario4 0 = PyList [10, 11, 12, 13, 14]
   \<and> one_failed 12 = Inl RayTaskError
   \<and> emitted future3_last one_failed scenario4 (join_ray_futures_iter 0) =
       Some (Inl RayTaskError, scenario4\<lparr>heap := (heap scenario4)(0 := PyList []), polls := 2\<rparr>)"
proof -
  have "emitted always_ready doubled repeated_future (join_ray_futures_iter 0) =
       Some (Inl ValueError, repeated_future\<lparr>heap := (heap repeated_future)(0 := PyList []), polls := 1\<rparr>)"
    by (simp add: repeated_future_def always_ready_def run_simps)
  moreover have "emitted future3_last one_failed scenario4 (join_ray_futures_iter 0) =
       Some (Inl RayTaskError, scenario4\<lparr>heap := (heap scenario4)(0 := PyList []), polls := 2\<rparr>)"
    by (simp add: scenario4_def future3_last_def one_failed_def doubled_def twice_def run_simps)
  ultimately show ?thesis
    by (simp add: repeated_future_def scenario4_def one_failed_def)
qed

text \<open>
  C3. Both entry points empty the caller's list object and change nothing else of the
  caller's heap: the start of the generator's body does so; the heap after any \<open>next\<close> on
  the new generator, and after any call of \<open>join_ray_futures\<close>, is the caller's heap with
  the empty list at the address of the argument; and the call of \<open>join_ray_futures\<close> does
  come back when every future is reported as completed by some wait.
\<close>

theorem joiners_empty_the_given_list:
  assumes "heap w a = PyList fs"
  shows "heap (fst (snd (gen_step ready result_of w (join_ray_futures_iter a)))) = (heap w)(a := PyList [])
       \<and> (\<forall>sig w' g. gen_next ready result_of w (join_ray_futures_iter a) = Some (sig, w', g)
             \<longrightarrow> heap w' = (heap w)(a := PyList []))
       \<and> (\<forall>r w'. join_ray_futures ready result_of w a = Some (r, w')
             \<longrightarrow> heap w' = (heap w)(a := PyList []))
       \<and> ((\<forall>f\<in>set fs. \<exists>j\<ge>polls w. ready j f)
             \<longrightarrow> (\<exists>r w'. join_ray_futures ready result_of w a = Some (r, w')))"
proof (intro conjI allI impI)
  note step = gen_step_created[OF assms, of ready result_of]
  show "heap (fst (snd (gen_step ready result_of w (join_ray_futures_iter a)))) = (heap w)(a := PyList [])"
    unfolding join_ray_futures_iter_def step by simp
  {
    fix sig w' g
    assume "gen_next ready result_of w (join_ray_futures_iter a) = Some (sig, w', g)"
    then have "gen_next ready result_of (w\<lparr>heap := (heap w)(a := PyList [])\<rparr>)
                 (Suspended \<lparr>futures = fs, id_to_position_map = id_to_position fs,
                             pending = [], pbar = 0\<rparr>) = Some (sig, w', g)"
      by (simp add: join_ray_futures_iter_def gen_next_silent[OF step])
    from gen_next_started[OF this] show "heap w' = (heap w)(a := PyList [])" by simp
  }
  {
    fix r w'
    assume "join_ray_futures ready result_of w a = Some (r, w')"
    then have "for_each store_result ready result_of (w\<lparr>heap := (heap w)(a := PyList [])\<rparr>)
                 (Suspended \<lparr>futures = fs, id_to_position_map = id_to_position fs,
                             pending = [], pbar = 0\<rparr>) (replicate (length fs) None) = Some (r, w')"
      using assms
      by (simp add: join_ray_futures_def join_ray_futures_iter_def for_each_silent[OF step])
    from for_each_started[OF this] show "heap w' = (heap w)(a := PyList [])" by simp
  }
  {
    assume "\<forall>f\<in>set fs. \<exists>j\<ge>polls w. ready j f"
    from for_each_returns[OF assms this, of store_result result_of "replicate (length fs) None"]
    show "\<exists>r w'. join_ray_futures ready result_of w a = Some (r, w')"
      using assms by (simp add: join_ray_futures_def join_ray_futures_iter_def)
  }
qed

text \<open>Scenario 4: after the call the list at address 0 is empty, the rest of the heap as before.\<close>

theorem joiners_empty_the_given_list_witness:
  "heap scenario4 0 = PyList [10, 11, 12, 13, 14]
   \<and> (\<exists>r w'. join_ray_futures future3_last doubled scenario4 0 = Some (r, w')
          \<and> heap w' = (heap scenario4)(0 := PyList []))
   \<and> join_ray_futures future3_last doubled scenario4 0 =
       Some (Inr [Some 20, Some 22, Some 24, Some 26, Some 28],
             scenario4\<lparr>heap := (heap scenario4)(0 := PyList []), polls := 4\<rparr>)"
proof -
  have run: "join_ray_futures future3_last doubled scenario4 0 =
       Some (Inr [Some 20, Some 22, Some 24, Some 26, Some 28],
             scenario4\<lparr>heap := (heap scenario4)(0 := PyList []), polls := 4\<rparr>)"
    by (simp add: scenario4_def future3_last_def doubled_def twice_def run_simps)
  have h1: "heap scenario4 0 = PyList [10, 11, 12, 13, 14]" by (simp add: scenario4_def)
  have h3: "\<forall>f\<in>set [10, 11, 12, 13, 14]. \<exists>j\<ge>polls scenario4. future3_last j f"
    by (simp add: scenario4_def future3_last_def)
  note t = joiners_empty_the_given_list[OF h1, of future3_last doubled]
  from t h3 obtain r w' where r: "join_ray_futures future3_last doubled scenario4 0 = Some (r, w')"
    by blast
  with t have "heap w' = (heap scenario4)(0 := PyList [])" by blast
  with h1 r run show ?thesis by blast
qed

text \<open>
  C4. When no Ray cluster is initialized, \<open>RayExecutor.run\<close> raises an error after the
  one question whether a cluster is initialized: the superclass's \<open>run\<close> is not called and
  the state of the dispatch is as before. When a cluster is initialized, \<open>run\<close> asks for the
  available resources first and then calls the superclass's \<open>run\<close> with the amount reported
  for \<open>CPU\<close> as the worker count (\<open>None\<close> when no CPU is reported) and \<open>multiprocess\<close> true.
\<close>

theorem RayExecutor_run_checks_cluster:
  "(\<not> is_initialized s \<longrightarrow>
      RayExecutor_run super_run s = (Inl RuntimeError, s\<lparr>calls := calls s @ [Call_is_initialized]\<rparr>))
   \<and> (is_initialized s \<longrightarrow>
      RayExecutor_run super_run s =
        (Inr (fst (super_run (available_resources s ''CPU'') True (dispatched s))),
         s\<lparr>calls := calls s @ [Call_is_initialized, Call_available_resources,
                                Call_super_run (available_resources s ''CPU'') True],
            dispatched := snd (super_run (available_resources s ''CPU'') True (dispatched s))\<rparr>))"
  by (simp add: RayExecutor_run_def Let_def split: prod.splits)

text \<open>Without a cluster nothing is submitted; with 8 CPUs the three runs are, with 8 workers.\<close>

theorem RayExecutor_run_checks_cluster_witness:
  "\<not> is_initialized no_cluster
   \<and> RayExecutor_run submit_three no_cluster =
       (Inl RuntimeError, no_cluster\<lparr>calls := [Call_is_initialized]\<rparr>)
   \<and> is_initialized cluster_of_8
   \<and> RayExecutor_run submit_three cluster_of_8 =
       (Inr ''results'',
        cluster_of_8\<lparr>calls := [Call_is_initialized, Call_available_resources, Call_super_run (Some 8) True],
                      dispatched := [1, 2, 3]\<rparr>)"
proof -
  have a: "\<not> is_initialized no_cluster" by (simp add: no_cluster_def)
  have b: "is_initialized cluster_of_8" by (simp add: cluster_of_8_def)
  from RayExecutor_run_checks_cluster[of no_cluster submit_three] a
  have "RayExecutor_run submit_three no_cluster =
       (Inl RuntimeError, no_cluster\<lparr>calls := [Call_is_initialized]\<rparr>)"
    by (simp add: no_cluster_def)
  moreover from RayExecutor_run_checks_cluster[of cluster_of_8 submit_three] b
  have "RayExecutor_run submit_three cluster_of_8 =
       (Inr ''results'',
        cluster_of_8\<lparr>calls := [Call_is_initialized, Call_available_resources, Call_super_run (Some 8) True],
                      dispatched := [1, 2, 3]\<rparr>)"
    by (simp add: cluster_of_8_def submit_three_def)
  ultimately show ?thesis using a b by simp
qed

text \<open>
  C5. For every \<open>InputTask\<close> made with default value \<open>v\<close>, \<open>execute\<close> with a false override
  returns \<open>v\<close>, with a true override returns the override, and without an override returns
  \<open>v\<close>; an override whose truth test raises makes \<open>execute\<close> raise. \<open>None\<close>, \<open>False\<close>, the
  zeros, the empty string, bytes, tuple, frozenset, list, dictionary and set, and an
  instance whose class makes it false are false.
\<close>

theorem InputTask_execute_override:
  "(py_bool pt st given = Truth False \<longrightarrow>
      InputTask_execute pt st (InputTask_init v) (Some given) = Some (Inr v))
   \<and> (py_bool pt st given = Truth True \<longrightarrow>
      InputTask_execute pt st (InputTask_init v) (Some given) = Some (Inr given))
   \<and> (py_bool pt st given = Raises e \<longrightarrow>
      InputTask_execute pt st (InputTask_init v) (Some given) = Some (Inl e))
   \<and> InputTask_execute pt st (InputTask_init v) None = Some (Inr v)
   \<and> py_bool pt st NoneV = Truth False \<and> py_bool pt st (BoolV False) = Truth False
   \<and> py_bool pt st (IntV 0) = Truth False \<and> py_bool pt st (FloatV (Float 0 x)) = Truth False
   \<and> py_bool pt st (StrV []) = Truth False \<and> py_bool pt st (BytesV []) = Truth False
   \<and> py_bool pt st (TupleV []) = Truth False \<and> py_bool pt st (FrozensetV []) = Truth False
   \<and> (lookup st r = Some (ListObj []) \<longrightarrow> py_bool pt st (RefV r) = Truth False)
   \<and> (lookup st r = Some (DictObj []) \<longrightarrow> py_bool pt st (RefV r) = Truth False)
   \<and> (lookup st r = Some (SetObj []) \<longrightarrow> py_bool pt st (RefV r) = Truth False)
   \<and> (lookup st r = Some (InstanceObj (Some (Inr False))) \<longrightarrow> py_bool pt st (RefV r) = Truth False)"
  by (simp add: InputTask_execute_def InputTask_init_def py_or_def)

text \<open>
  The default 7 with the overrides 0, 0.0, 3, an empty list, an empty set, a list that
  is not empty, an instance that is false, an instance whose truth test raises, and none.
\<close>

theorem InputTask_execute_override_witness:
  "InputTask_execute (Truth True) truth_store (InputTask_init (IntV 7)) (Some (IntV 0)) = Some (Inr (IntV 7))
   \<and> InputTask_execute (Truth True) truth_store (InputTask_init (IntV 7)) (Some (FloatV (Float 0 0))) = Some (Inr (IntV 7))
   \<and> InputTask_execute (Truth True) truth_store (InputTask_init (IntV 7)) (Some (IntV 3)) = Some (Inr (IntV 3))
   \<and> lookup truth_store 0 = Some (ListObj [])
   \<and> InputTask_execute (Truth True) truth_store (InputTask_init (IntV 7)) (Some (RefV 0)) = Some (Inr (IntV 7))
   \<and> lookup truth_store 2 = Some (SetObj [])
   \<and> InputTask_execute (Truth True) truth_store (InputTask_init (IntV 7)) (Some (RefV 2)) = Some (Inr (IntV 7))
   \<and> lookup truth_store 3 = Some (ListObj [IntV 0])
   \<and> InputTask_execute (Truth True) truth_store (InputTask_init (IntV 7)) (Some (RefV 3)) = Some (Inr (RefV 3))
   \<and> lookup truth_store 5 = Some (InstanceObj (Some (Inr False)))
   \<and> InputTask_execute (Truth True) truth_store (InputTask_init (IntV 7)) (Some (RefV 5)) = Some (Inr (IntV 7))
   \<and> lookup truth_store 6 = Some (InstanceObj (Some (Inl ValueError)))
   \<and> InputTask_execute (Truth True) truth_store (InputTask_init (IntV 7)) (Some (RefV 6)) = Some (Inl ValueError)
   \<and> InputTask_execute (Truth True) truth_store (InputTask_init (IntV 7)) None = Some (Inr (IntV 7))"
proof -
  let ?run = "InputTask_execute (Truth True) truth_store (InputTask_init (IntV 7))"
  note t = InputTask_execute_override[of "Truth True" truth_store _ "IntV 7"]
  have l: "lookup truth_store 0 = Some (ListObj [])" "lookup truth_store 2 = Some (SetObj [])"
    "lookup truth_store 3 = Some (ListObj [IntV 0])"
    "lookup truth_store 5 = Some (InstanceObj (Some (Inr False)))"
    "lookup truth_store 6 = Some (InstanceObj (Some (Inl ValueError)))"
    by (simp_all add: lookup_def truth_store_def)
  have b: "py_bool (Truth True) truth_store (IntV 0) = Truth False"
    "py_bool (Truth True) truth_store (FloatV (Float 0 0)) = Truth False"
    "py_bool (Truth True) truth_store (IntV 3) = Truth True"
    "py_bool (Truth True) truth_store (RefV 0) = Truth False"
    "py_bool (Truth True) truth_store (RefV 2) = Truth False"
    "py_bool (Truth True) truth_store (RefV 3) = Truth True"
    "py_bool (Truth True) truth_store (RefV 5) = Truth False"
    "py_bool (Truth True) truth_store (RefV 6) = Raises ValueError"
    by (simp_all add: l)
  from t[of "IntV 0"] b(1) have 1: "?run (Some (IntV 0)) = Some (Inr (IntV 7))" by blast
  from t[of "FloatV (Float 0 0)"] b(2) have 2: "?run (Some (FloatV (Float 0 0))) = Some (Inr (IntV 7))" by blast
  from t[of "IntV 3"] b(3) have 3: "?run (Some (IntV 3)) = Some (Inr (IntV 3))" by blast
  from t[of "RefV 0"] b(4) have 4: "?run (Some (RefV 0)) = Some (Inr (IntV 7))" by blast
  from t[of "RefV 2"] b(5) have 5: "?run (Some (RefV 2)) = Some (Inr (IntV 7))" by blast
  from t[of "RefV 3"] b(6) have 6: "?run (Some (RefV 3)) = Some (Inr (RefV 3))" by blast
  from t[of "RefV 5"] b(7) have 7: "?run (Some (RefV 5)) = Some (Inr (IntV 7))" by blast
  from t[of "RefV 6" ValueError] b(8) have 8: "?run (Some (RefV 6)) = Some (Inl ValueError)" by blast
  from t[of NoneV] have 9: "?run None = Some (Inr (IntV 7))" by blast
  from l 1 2 3 4 5 6 7 8 9 show ?thesis by simp
qed

text \<open>
  C6. For every \<open>OutputTask\<close>, \<open>execute\<close> on an \<open>EOPatch\<close> returns a new object, the given
  patch and every other object being left as they are, and the new object is an \<open>EOPatch\<close>
  that holds exactly the features of the given one that are in the task's \<open>features\<close>, with
  the same values; \<open>execute\<close> on a value that is not an \<open>EOPatch\<close> returns that very value
  and leaves the store as it is.
\<close>

theorem OutputTask_execute_copies_patch:
  "(lookup st r = Some (EOPatchObj content) \<longrightarrow>
      (\<exists>r' content'. OutputTask_execute st self (RefV r) = (RefV r', st @ [EOPatchObj content'])
         \<and> r' = length st \<and> r' \<noteq> r \<and> lookup st r' = None
         \<and> lookup (st @ [EOPatchObj content']) r' = Some (EOPatchObj content')
         \<and> (\<forall>q. q < length st \<longrightarrow> lookup (st @ [EOPatchObj content']) q = lookup st q)
         \<and> content' = filter (\<lambda>item. kept (features self) (fst item)) content
         \<and> set content' = {(f, v). (f, v) \<in> set content \<and> kept (features self) f}))
   \<and> ((\<forall>q content. data = RefV q \<longrightarrow> lookup st q \<noteq> Some (EOPatchObj content)) \<longrightarrow>
      OutputTask_execute st self data = (data, st))"
proof (intro conjI impI)
  assume p: "lookup st r = Some (EOPatchObj content)"
  then have r: "r < length st" by (simp add: lookup_def split: if_splits)
  let ?c = "filter (\<lambda>item. kept (features self) (fst item)) content"
  have "OutputTask_execute st self (RefV r) = (RefV (length st), st @ [EOPatchObj ?c])"
    using p by (simp add: OutputTask_execute_def EOPatch_copy_def)
  moreover have "length st = length st" "length st \<noteq> r" using r by simp_all
  moreover have "lookup st (length st) = None" by (simp add: lookup_def)
  moreover have "lookup (st @ [EOPatchObj ?c]) (length st) = Some (EOPatchObj ?c)"
    by (simp add: lookup_def)
  moreover have "\<forall>q. q < length st \<longrightarrow> lookup (st @ [EOPatchObj ?c]) q = lookup st q"
    by (simp add: lookup_def nth_append)
  moreover have "set ?c = {(f, v). (f, v) \<in> set content \<and> kept (features self) f}"
    by auto
  ultimately show "\<exists>r' content'. OutputTask_execute st self (RefV r) = (RefV r', st @ [EOPatchObj content'])
         \<and> r' = length st \<and> r' \<noteq> r \<and> lookup st r' = None
         \<and> lookup (st @ [EOPatchObj content']) r' = Some (EOPatchObj content')
         \<and> (\<forall>q. q < length st \<longrightarrow> lookup (st @ [EOPatchObj content']) q = lookup st q)
         \<and> content' = filter (\<lambda>item. kept (features self) (fst item)) content
         \<and> set content' = {(f, v). (f, v) \<in> set content \<and> kept (features self) f}"
    by blast
next
  assume "\<forall>q content. data = RefV q \<longrightarrow> lookup st q \<noteq> Some (EOPatchObj content)"
  then show "OutputTask_execute st self data = (data, st)"
    by (auto simp: OutputTask_execute_def split: pyval.splits option.splits pyobj.splits)
qed

text \<open>A patch of two features filtered to one, and a list that is handed back as it is.\<close>

theorem OutputTask_execute_copies_patch_witness:
  "lookup patch_store 1 = Some (EOPatchObj [((''data'', ''BANDS''), RefV 0), ((''mask'', ''CLM''), IntV 5)])
   \<and> OutputTask_execute patch_store (OutputTask_init some_uuids None (Features [(''data'', ''BANDS'')])) (RefV 1)
       = (RefV 4, patch_store @ [EOPatchObj [((''data'', ''BANDS''), RefV 0)]])
   \<and> lookup patch_store 0 = Some (ListObj [IntV 1])
   \<and> OutputTask_execute patch_store (OutputTask_init some_uuids None (Features [(''data'', ''BANDS'')])) (RefV 0)
       = (RefV 0, patch_store)"
proof -
  let ?t = "OutputTask_init some_uuids None (Features [(''data'', ''BANDS'')])"
  have a: "lookup patch_store 1 = Some (EOPatchObj [((''data'', ''BANDS''), RefV 0), ((''mask'', ''CLM''), IntV 5)])"
    by (simp add: lookup_def patch_store_def)
  have b: "\<forall>q content. RefV 0 = RefV q \<longrightarrow> lookup patch_store q \<noteq> Some (EOPatchObj content)"
    by (simp add: lookup_def patch_store_def)
  from OutputTask_execute_copies_patch[of patch_store 1 _ ?t "RefV 0"] a
  obtain r' content' where
    "OutputTask_execute patch_store ?t (RefV 1) = (RefV r', patch_store @ [EOPatchObj content'])"
    "r' = length patch_store"
    "content' = filter (\<lambda>item. kept (features ?t) (fst item))
                  [((''data'', ''BANDS''), RefV 0), ((''mask'', ''CLM''), IntV 5)]"
    by blast
  moreover have "length patch_store = 4" by (simp add: patch_store_def)
  ultimately have "OutputTask_execute patch_store ?t (RefV 1)
       = (RefV 4, patch_store @ [EOPatchObj [((''data'', ''BANDS''), RefV 0)]])"
    by (simp add: kept_def OutputTask_init_def)
  moreover from OutputTask_execute_copies_patch[of patch_store 1 _ ?t "RefV 0"] b
  have "OutputTask_execute patch_store ?t (RefV 0) = (RefV 0, patch_store)" by blast
  moreover have "lookup patch_store 0 = Some (ListObj [IntV 1])"
    by (simp add: lookup_def patch_store_def)
  ultimately show ?thesis using a by blast
qed

text \<open>
  C7. For every input list, if every future of it is reported as completed by some
  wait, the polling loop of the generator comes to an end. A poll cycle takes the futures
  the wait reports out of the tracked list and leaves the others (or ends the generator
  with the exception of \<open>ray.get\<close>), no step of the body adds to the tracked list, and with
  nothing left to emit the loop exits exactly when the tracked list is empty.
\<close>

theorem polling_loop_terminates:
  assumes "heap w a = PyList fs" and "\<forall>f\<in>set fs. \<exists>j\<ge>polls w. ready j f"
  shows "(\<exists>out w'. emitted ready result_of w (join_ray_futures_iter a) = Some (out, w'))
       \<and> (\<forall>w1 fr. pending fr = [] \<and> futures fr \<noteq> [] \<and> distinct (futures fr) \<longrightarrow>
             gen_step ready result_of w1 (Suspended fr) =
               (case ray_get result_of (filter (ready (polls w1)) (futures fr)) of
                  Inl e \<Rightarrow> (Some (Raise e), w1\<lparr>polls := Suc (polls w1)\<rparr>, Finished)
                | Inr results \<Rightarrow>
                    (None, w1\<lparr>polls := Suc (polls w1)\<rparr>,
                     Suspended (fr\<lparr>futures := filter (\<lambda>f. \<not> ready (polls w1) f) (futures fr),
                                    pending := zip (filter (ready (polls w1)) (futures fr)) results\<rparr>))))
       \<and> (\<forall>w1 fr sig w2 fr'. gen_step ready result_of w1 (Suspended fr) = (sig, w2, Suspended fr') \<longrightarrow>
             set (futures fr') \<subseteq> set (futures fr) \<and> length (futures fr') \<le> length (futures fr))
       \<and> (\<forall>w1 fr. pending fr = [] \<longrightarrow>
             (fst (gen_step ready result_of w1 (Suspended fr)) = Some StopIteration
                \<longleftrightarrow> futures fr = []))"
proof (intro conjI allI impI)
  show "\<exists>out w'. emitted ready result_of w (join_ray_futures_iter a) = Some (out, w')"
    unfolding emitted_def join_ray_futures_iter_def
    using assms by (rule for_each_returns)
next
  fix w1 :: "'a world" and fr :: "('a, 'b) frame"
  assume "pending fr = [] \<and> futures fr \<noteq> [] \<and> distinct (futures fr)"
  then show "gen_step ready result_of w1 (Suspended fr) =
               (case ray_get result_of (filter (ready (polls w1)) (futures fr)) of
                  Inl e \<Rightarrow> (Some (Raise e), w1\<lparr>polls := Suc (polls w1)\<rparr>, Finished)
                | Inr results \<Rightarrow>
                    (None, w1\<lparr>polls := Suc (polls w1)\<rparr>,
                     Suspended (fr\<lparr>futures := filter (\<lambda>f. \<not> ready (polls w1) f) (futures fr),
                                    pending := zip (filter (ready (polls w1)) (futures fr)) results\<rparr>)))"
    by (simp add: ray_wait_def comp_def split: sum.splits)
next
  fix w1 w2 :: "'a world" and fr fr' :: "('a, 'b) frame" and sig
  assume "gen_step ready result_of w1 (Suspended fr) = (sig, w2, Suspended fr')"
  then have "futures fr' = futures fr \<or> futures fr' = filter (\<lambda>f. \<not> ready (polls w1) f) (futures fr)"
    by (auto simp: ray_wait_def comp_def split: list.splits option.splits if_splits sum.splits)
  then show "set (futures fr') \<subseteq> set (futures fr)" "length (futures fr') \<le> length (futures fr)"
    by auto
next
  fix w1 :: "'a world" and fr :: "('a, 'b) frame"
  assume "pending fr = []"
  then show "fst (gen_step ready result_of w1 (Suspended fr)) = Some StopIteration
                \<longleftrightarrow> futures fr = []"
    by (auto simp: ray_wait_def split: if_splits sum.splits)
qed

text \<open>Scenario 4: the generator comes to its end, after four waits.\<close>

theorem polling_loop_terminates_witness:
  "heap scenario4 0 = PyList [10, 11, 12, 13, 14]
   \<and> (\<exists>out w'. emitted future3_last doubled scenario4 (join_ray_futures_iter 0) = Some (out, w'))
   \<and> emitted future3_last doubled scenario4 (join_ray_futures_iter 0) =
       Some (Inr [(0, 20), (1, 22), (2, 24), (4, 28), (3, 26)],
             scenario4\<lparr>heap := (heap scenario4)(0 := PyList []), polls := 4\<rparr>)"
proof -
  have run: "emitted future3_last doubled scenario4 (join_ray_futures_iter 0) =
       Some (Inr [(0, 20), (1, 22), (2, 24), (4, 28), (3, 26)],
             scenario4\<lparr>heap := (heap scenario4)(0 := PyList []), polls := 4\<rparr>)"
    by (simp add: scenario4_def future3_last_def doubled_def twice_def run_simps)
  have h1: "heap scenario4 0 = PyList [10, 11, 12, 13, 14]" by (simp add: scenario4_def)
  have h3: "\<forall>f\<in>set [10, 11, 12, 13, 14]. \<exists>j\<ge>polls scenario4. future3_last j f"
    by (simp add: scenario4_def future3_last_def)
  from polling_loop_terminates[OF h1 h3, of doubled] h1 run show ?thesis by blast
qed

text \<open>
  C8. For every list of futures and every completion order (every future is reported
  as completed by some wait), the list \<open>join_ray_futures\<close> returns is the list that has each
  value emitted by \<open>join_ray_futures_iter\<close> on the same input at its position; when the
  generator raises, the eager call raises the same exception. Both leave the same heap.
\<close>

theorem join_ray_futures_refines_iter:
  assumes "heap w a = PyList fs" and "\<forall>f\<in>set fs. \<exists>j\<ge>polls w. ready j f"
  shows "\<exists>out w1 w2.
           emitted ready result_of w (join_ray_futures_iter a) = Some (out, w1)
         \<and> join_ray_futures ready result_of w a =
             Some (case out of Inl e \<Rightarrow> Inl e
                   | Inr pairs \<Rightarrow> Inr (place_at_positions (length fs) pairs), w2)
         \<and> heap w1 = heap w2"
proof (cases "distinct fs")
  case True
  from eventually_bounded[OF assms(2)]
  obtain n where n: "\<forall>f\<in>set fs. \<exists>j. polls w \<le> j \<and> j < polls w + n \<and> ready j f" ..
  let ?hs = "fst (poll_run ready result_of n (polls w) fs)"
  let ?err = "snd (poll_run ready result_of n (polls w) fs)"
  let ?g = "\<lambda>f. projr (result_of f)"
  let ?pairs = "map (\<lambda>f. (the (id_to_position fs f), ?g f)) ?hs"
  let ?init = "replicate (length fs) (None :: 'b option)"
  let ?stored = "map (\<lambda>i. if fs ! i \<in> set ?hs then Some (?g (fs ! i)) else ?init ! i) [0..<length fs]"
  have hs: "distinct ?hs" "set ?hs \<subseteq> set fs"
    using True by (simp_all add: poll_run_distinct poll_run_subset)
  from for_each_created[OF assms(1) True n, of "\<lambda>item acc. Inr (acc @ [item])" result_of "[]"]
  obtain w1 where w1: "emitted ready result_of w (join_ray_futures_iter a) =
        Some (case ?err of None \<Rightarrow> Inr ?pairs | Some e \<Rightarrow> Inl e, w1)"
    "heap w1 = (heap w)(a := PyList [])"
    by (auto simp: emitted_def join_ray_futures_iter_def run_all_def run_body_collect)
  have stored: "run_body store_result ?pairs ?init = Inr ?stored"
    using run_body_store[OF True hs, of ?init ?g] by simp
  from for_each_created[OF assms(1) True n, of store_result result_of ?init]
  obtain w2 where w2: "join_ray_futures ready result_of w a =
        Some (case ?err of None \<Rightarrow> Inr ?stored | Some e \<Rightarrow> Inl e, w2)"
    "heap w2 = (heap w)(a := PyList [])"
    using assms(1)
    by (auto simp: join_ray_futures_def join_ray_futures_iter_def run_all_def stored)
  show ?thesis
  proof (cases ?err)
    case None
    have all: "set ?hs = set fs" using n None by (rule poll_run_set)
    have "place_at_positions (length fs) ?pairs = map (\<lambda>i. Some (?g (fs ! i))) [0..<length fs]"
      unfolding place_at_positions_def
      by (rule map_cong[OF refl]) (simp add: map_of_emitted[OF True all])
    moreover have "?stored = map (\<lambda>i. Some (?g (fs ! i))) [0..<length fs]"
      using all by (intro map_cong[OF refl]) simp
    ultimately have "?stored = place_at_positions (length fs) ?pairs" by simp
    with w1 w2 None show ?thesis
      by (intro exI[of _ "Inr ?pairs"] exI[of _ w1] exI[of _ w2]) simp
  next
    case (Some e)
    with w1 w2 show ?thesis
      by (intro exI[of _ "Inl e"] exI[of _ w1] exI[of _ w2]) simp
  qed
next
  case False
  let ?w' = "w\<lparr>heap := (heap w)(a := PyList []), polls := Suc (polls w)\<rparr>"
  have "emitted ready result_of w (join_ray_futures_iter a) = Some (Inl ValueError, ?w')"
    unfolding emitted_def join_ray_futures_iter_def
    using assms(1) False by (rule for_each_duplicates)
  moreover have "join_ray_futures ready result_of w a = Some (Inl ValueError, ?w')"
    using assms(1) for_each_duplicates[OF assms(1) False, of store_result ready result_of]
    by (simp add: join_ray_futures_def join_ray_futures_iter_def)
  ultimately show ?thesis
    by (intro exI[of _ "Inl ValueError"] exI[of _ ?w']) simp
qed

text \<open>
  Scenario 4: the eager result is the lazy pairs, each value placed at its position; both
  runs and the placing are evaluated as well.
\<close>

theorem join_ray_futures_refines_iter_witness:
  "heap scenario4 0 = PyList [10, 11, 12, 13, 14]
   \<and> (\<exists>out w1 w2.
           emitted future3_last doubled scenario4 (join_ray_futures_iter 0) = Some (out, w1)
         \<and> join_ray_futures future3_last doubled scenario4 0 =
             Some (case out of Inl e \<Rightarrow> Inl e
                   | Inr pairs \<Rightarrow> Inr (place_at_positions 5 pairs), w2)
         \<and> heap w1 = heap w2)
   \<and> emitted future3_last doubled scenario4 (join_ray_futures_iter 0) =
       Some (Inr [(0, 20), (1, 22), (2, 24), (4, 28), (3, 26)],
             scenario4\<lparr>heap := (heap scenario4)(0 := PyList []), polls := 4\<rparr>)
   \<and> join_ray_futures future3_last doubled scenario4 0 =
       Some (Inr [Some 20, Some 22, Some 24, Some 26, Some 28],
             scenario4\<lparr>heap := (heap scenario4)(0 := PyList []), polls := 4\<rparr>)
   \<and> place_at_positions 5 [(0, 20), (1, 22), (2, 24), (4, 28), (3, 26 :: nat)] =
       [Some 20, Some 22, Some 24, Some 26, Some 28]"
proof -
  have lazy: "emitted future3_last doubled scenario4 (join_ray_futures_iter 0) =
       Some (Inr [(0, 20), (1, 22), (2, 24), (4, 28), (3, 26)],
             scenario4\<lparr>heap := (heap scenario4)(0 := PyList []), polls := 4\<rparr>)"
    by (simp add: scenario4_def future3_last_def doubled_def twice_def run_simps)
  have eager: "join_ray_futures future3_last doubled scenario4 0 =
       Some (Inr [Some 20, Some 22, Some 24, Some 26, Some 28],
             scenario4\<lparr>heap := (heap scenario4)(0 := PyList []), polls := 4\<rparr>)"
    by (simp add: scenario4_def future3_last_def doubled_def twice_def run_simps)
  have placed: "place_at_positions 5 [(0, 20), (1, 22), (2, 24), (4, 28), (3, 26 :: nat)] =
       [Some 20, Some 22, Some 24, Some 26, Some 28]"
    by (simp add: place_at_positions_def upt_rec)
  have h1: "heap scenario4 0 = PyList [10, 11, 12, 13, 14]" by (simp add: scenario4_def)
  have h3: "\<forall>f\<in>set [10, 11, 12, 13, 14]. \<exists>j\<ge>polls scenario4. future3_last j f"
    by (simp add: scenario4_def future3_last_def)
  have l: "length [10, 11, 12, 13, 14 :: nat] = 5" by simp
  from join_ray_futures_refines_iter[OF h1 h3, of doubled, unfolded l] h1 lazy eager placed
  show ?thesis by blast
qed

text \<open>
  C9. For every argument that is not a list, the first \<open>next\<close> on the generator of
  \<open>join_ray_futures_iter\<close> raises ValueError, and the world is as before: the argument is
  not changed and no wait has been made.
\<close>

theorem join_ray_futures_iter_not_a_list:
  assumes "\<forall>xs. heap w a \<noteq> PyList xs"
  shows "gen_next ready result_of w (join_ray_futures_iter a) = Some (Raise ValueError, w, Finished)
       \<and> emitted ready result_of w (join_ray_futures_iter a) = Some (Inl ValueError, w)"
proof
  have "gen_step ready result_of w (Created a) = (Some (Raise ValueError), w, Finished)"
    using assms by (cases "heap w a") simp_all
  then show "gen_next ready result_of w (join_ray_futures_iter a) = Some (Raise ValueError, w, Finished)"
    unfolding join_ray_futures_iter_def by (rule gen_next_signal)
  show "emitted ready result_of w (join_ray_futures_iter a) = Some (Inl ValueError, w)"
    unfolding emitted_def join_ray_futures_iter_def
    using assms by (rule for_each_not_a_list)
qed

text \<open>The tuple at address 1 of scenario 4.\<close>

theorem join_ray_futures_iter_not_a_list_witness:
  "heap scenario4 1 = PyTuple [10, 11]
   \<and> gen_next future3_last doubled scenario4 (join_ray_futures_iter 1) =
       Some (Raise ValueError, scenario4, Finished)
   \<and> emitted future3_last doubled scenario4 (join_ray_futures_iter 1) = Some (Inl ValueError, scenario4)"
proof -
  have t: "heap scenario4 1 = PyTuple [10, 11]" by (simp add: scenario4_def)
  then have h: "\<forall>xs. heap scenario4 1 \<noteq> PyList xs" by simp
  from join_ray_futures_iter_not_a_list[OF h, of future3_last doubled] t show ?thesis by blast
qed

text \<open>
  C10. Every \<open>OutputTask\<close> has a name that is not empty: made with no name or with the
  empty string, its \<open>name\<close> starts with \<open>output-\<close>; made with a name \<open>n\<close> that is not empty,
  its \<open>name\<close> is \<open>n\<close>; reading \<open>name\<close> leaves the task as it is, so that a second reading
  gives the same string.
\<close>

theorem OutputTask_name_fixed:
  "((name_arg = None \<or> name_arg = Some []) \<longrightarrow>
      take 7 (fst (name (OutputTask_init u name_arg fs))) = ''output-'')
   \<and> (\<forall>n. name_arg = Some n \<and> n \<noteq> [] \<longrightarrow> fst (name (OutputTask_init u name_arg fs)) = n)
   \<and> fst (name (OutputTask_init u name_arg fs)) \<noteq> []
   \<and> (\<forall>self. fst (name (snd (name self))) = fst (name self) \<and> snd (name self) = self)"
  by (cases name_arg) (auto simp: name_def OutputTask_init_def generate_uid_def Let_def)

text \<open>A generated name, a given one, and two readings of the same task.\<close>

theorem OutputTask_name_fixed_witness:
  "fst (name (OutputTask_init some_uuids None AllFeatures)) = ''output-6fa459ea0ee311f0a1b2-16fd2706845e''
   \<and> fst (name (OutputTask_init some_uuids (Some ''patch'') AllFeatures)) = ''patch''
   \<and> fst (name (snd (name (OutputTask_init some_uuids None AllFeatures))))
       = fst (name (OutputTask_init some_uuids None AllFeatures))"
proof -
  have "fst (name (OutputTask_init some_uuids None AllFeatures)) = ''output-6fa459ea0ee311f0a1b2-16fd2706845e''"
    by (simp add: name_def OutputTask_init_def generate_uid_def some_uuids_def)
  moreover from OutputTask_name_fixed[of "Some ''patch''" some_uuids AllFeatures]
  have "fst (name (OutputTask_init some_uuids (Some ''patch'') AllFeatures)) = ''patch''" by simp
  moreover from OutputTask_name_fixed[of None some_uuids AllFeatures]
  have "fst (name (snd (name (OutputTask_init some_uuids None AllFeatures))))
       = fst (name (OutputTask_init some_uuids None AllFeatures))" by blast
  ultimately show ?thesis by blast
qed

end
